theory Spec2Isabelle
  imports Main "HOL-Library.Word"
begin

unbundle bit_operations_syntax

section \<open>Values shared by the packages\<close>

type_synonym byte = "8 word"

text \<open>
  A Go call either returns or panics. Functions of the source that can panic return an
  \<open>outcome\<close>; the others are total.
\<close>

datatype 'a outcome = Panic | Return 'a

text \<open>
  Go error values. The sentinels of \<open>internal/errors.go\<close> and of the standard library
  are constants; \<open>TransportError\<close> stands for any other error a transport hands back
  (\<open>errors.New("error")\<close> in the tests); \<open>Errorf_w msg e\<close> is
  \<open>fmt.Errorf("%w: msg", e)\<close> and \<open>wrappingError msg e\<close> is \<open>internal.Wrap(msg, e)\<close>:
  both wrap \<open>e\<close>. Numbers formatted into a message are left out of \<open>msg\<close>.
\<close>

datatype error =
    EOF
  | ErrShortWrite
  | ErrShortBuffer
  | ErrBufferUnderflow
  | ErrClosed
  | ErrCorrupted
  | ErrBadChunk
  | TransportError nat
  | Errorf_w string error
  | wrappingError string error

text \<open>\<open>errors.Is\<close>: the error itself or anything on its chain of wrapped errors.\<close>

fun errors_Is :: "error \<Rightarrow> error \<Rightarrow> bool" where
  "errors_Is (Errorf_w m e) target = (Errorf_w m e = target \<or> errors_Is e target)"
| "errors_Is (wrappingError m e) target = (wrappingError m e = target \<or> errors_Is e target)"
| "errors_Is e target = (e = target)"

text \<open>
  \<open>int64\<close> arithmetic: the fields are \<open>int\<close>, and every addition of the source is
  followed by the wrap-around to the signed 64-bit range.
\<close>

definition wrap64 :: "int \<Rightarrow> int" where
  "wrap64 x = (x + 2 ^ 63) mod 2 ^ 64 - 2 ^ 63"

definition MaxUint32 :: int where
  "MaxUint32 = 4294967295"

text \<open>Go's \<open>%\<close> truncates towards zero.\<close>

definition go_rem :: "int \<Rightarrow> int \<Rightarrow> int" where
  "go_rem a b = sgn a * (\<bar>a\<bar> mod \<bar>b\<bar>)"

section \<open>internal/io.go and internal/chunk.go\<close>

definition wordLength :: int where
  "wordLength = 2"

definition PaddedLength :: "int \<Rightarrow> int" where
  "PaddedLength n =
     (let md = go_rem n wordLength in
      if md \<noteq> 0 then wrap64 (n + wrap64 (wordLength - md)) else n)"

definition Pad :: "byte list \<Rightarrow> byte list" where
  "Pad b =
     (let md = go_rem (int (length b)) wordLength in
      if md \<noteq> 0 then b @ replicate (nat (wordLength - md)) 0 else b)"

definition LengthChunkHeader :: nat where
  "LengthChunkHeader = 8"

record Chunk =
  Identifier :: "byte list"
  Data :: "byte list"

definition ByteLength :: "Chunk \<Rightarrow> int" where
  "ByteLength c = wrap64 (8 + PaddedLength (int (length (Data c))))"

definition LittleEndianUInt16Bytes :: "16 word \<Rightarrow> byte list" where
  "LittleEndianUInt16Bytes u = [ucast u, ucast (drop_bit 8 u)]"

definition LittleEndianUInt32Bytes :: "32 word \<Rightarrow> byte list" where
  "LittleEndianUInt32Bytes u =
     [ucast u, ucast (drop_bit 8 u), ucast (drop_bit 16 u), ucast (drop_bit 24 u)]"

text \<open>
  \<open>binary.LittleEndian.Uint16\<close> and \<open>Uint32\<close> index the slice up to its last needed
  byte first, so a shorter slice panics.
\<close>

fun LittleEndian_Uint16 :: "byte list \<Rightarrow> 16 word outcome" where
  "LittleEndian_Uint16 (b0 # b1 # _) = Return (ucast b0 OR push_bit 8 (ucast b1))"
| "LittleEndian_Uint16 _ = Panic"

fun LittleEndian_Uint32 :: "byte list \<Rightarrow> 32 word outcome" where
  "LittleEndian_Uint32 (b0 # b1 # b2 # b3 # _) =
     Return (ucast b0 OR push_bit 8 (ucast b1) OR push_bit 16 (ucast b2)
             OR push_bit 24 (ucast b3))"
| "LittleEndian_Uint32 _ = Panic"

definition Must4Byte :: "byte list \<Rightarrow> byte list outcome" where
  "Must4Byte b = (if length b \<noteq> 4 then Panic else Return b)"

text \<open>
  Go's \<open>copy(dst, src)\<close> seen from \<open>dst\<close>: the first bytes of \<open>dst\<close> are overwritten,
  its length stays.
\<close>

definition copy_into :: "byte list \<Rightarrow> byte list \<Rightarrow> byte list" where
  "copy_into dst src = take (length dst) src @ drop (length src) dst"

subsection \<open>Transports\<close>

text \<open>
  The transports are not part of the codec. An \<open>io.Reader\<close> over a state \<open>'s\<close> is its
  \<open>Read\<close> method: given the state and \<open>len(p)\<close> it hands back the bytes it stored at
  the front of \<open>p\<close> (their number is the \<open>n\<close> it returns), the error, and the next
  state. A \<open>WriterWithWriterAt\<close> is the pair of its methods; \<open>WriteAt\<close> may panic (the
  buffer of \<open>internal/test\<close> does).
\<close>

type_synonym 's io_Reader = "'s \<Rightarrow> nat \<Rightarrow> (byte list \<times> error option) \<times> 's"

record 's WriterWithWriterAt =
  Write :: "'s \<Rightarrow> byte list \<Rightarrow> (nat \<times> error option) \<times> 's"
  WriteAt :: "'s \<Rightarrow> byte list \<Rightarrow> int \<Rightarrow> ((nat \<times> error option) \<times> 's) outcome"

text \<open>The contract of \<open>io.Reader\<close>: \<open>0 \<le> n \<le> len(p)\<close>.\<close>

definition io_Reader_ok :: "'s io_Reader \<Rightarrow> bool" where
  "io_Reader_ok rd = (\<forall>s len. length (fst (fst (rd s len))) \<le> len)"

text \<open>\<open>internal.Write\<close>: the loop over the slices, with the running total.\<close>

fun internal_Write_loop ::
  "'s WriterWithWriterAt \<Rightarrow> 's \<Rightarrow> byte list list \<Rightarrow> int \<Rightarrow> (int \<times> error option) \<times> 's" where
  "internal_Write_loop wt s [] tot = ((tot, None), s)"
| "internal_Write_loop wt s (buf # content) tot =
     (case Write wt s buf of ((n, err), s') \<Rightarrow>
        (let tot' = wrap64 (tot + int n) in
         if err \<noteq> None then ((tot', err), s')
         else if n < length buf then ((tot', Some ErrShortWrite), s')
         else internal_Write_loop wt s' content tot'))"

definition internal_Write ::
  "'s WriterWithWriterAt \<Rightarrow> 's \<Rightarrow> byte list list \<Rightarrow> (int \<times> error option) \<times> 's" where
  "internal_Write wt s content = internal_Write_loop wt s content 0"

definition internal_WriteAt ::
  "'s WriterWithWriterAt \<Rightarrow> 's \<Rightarrow> byte list \<Rightarrow> int \<Rightarrow> ((nat \<times> error option) \<times> 's) outcome" where
  "internal_WriteAt wt s b offset =
     (case WriteAt wt s b offset of
        Panic \<Rightarrow> Panic
      | Return ((n, err), s') \<Rightarrow>
          if err \<noteq> None then Return ((n, err), s')
          else if n < length b then Return ((n, Some ErrShortWrite), s')
          else Return ((n, None), s'))"

text \<open>
  \<open>internal.Read\<close>: the loop over the buffers. The buffers come back with what the
  transport stored in them.
\<close>

fun internal_Read_loop ::
  "'s io_Reader \<Rightarrow> 's \<Rightarrow> byte list list \<Rightarrow> int \<Rightarrow> (byte list list \<times> int \<times> error option) \<times> 's" where
  "internal_Read_loop rd s [] tot = (([], tot, None), s)"
| "internal_Read_loop rd s (buf # content) tot =
     (case rd s (length buf) of ((bs, err), s') \<Rightarrow>
        (let n = length bs; tot' = wrap64 (tot + int n); buf' = copy_into buf bs in
         if err \<noteq> None then ((buf' # content, tot', err), s')
         else if n < length buf then ((buf' # content, tot', Some ErrBufferUnderflow), s')
         else (case internal_Read_loop rd s' content tot' of
                 ((rest, t, e), s'') \<Rightarrow> ((buf' # rest, t, e), s''))))"

definition internal_Read ::
  "'s io_Reader \<Rightarrow> 's \<Rightarrow> byte list list \<Rightarrow> (byte list list \<times> int \<times> error option) \<times> 's" where
  "internal_Read rd s content = internal_Read_loop rd s content 0"

section \<open>constants.go\<close>

definition FourCCRIFF :: "byte list" where
  "FourCCRIFF = [0x52, 0x49, 0x46, 0x46]"

definition FourCCFormat :: "byte list" where
  "FourCCFormat = [0x66, 0x6D, 0x74, 0x20]"

definition FourCCData :: "byte list" where
  "FourCCData = [0x64, 0x61, 0x74, 0x61]"

definition EmptyBytes :: "byte list" where
  "EmptyBytes = [0, 0, 0, 0]"

section \<open>writer/writer.go\<close>

record 's Writer =
  w_io :: 's
  fileType_w :: "byte list"
  fileSize :: int
  closed :: bool

definition writer_init :: "'s WriterWithWriterAt \<Rightarrow> 's Writer \<Rightarrow> 's Writer \<times> error option" where
  "writer_init wt w =
     (case internal_Write wt (w_io w) [FourCCRIFF, EmptyBytes, fileType_w w] of
        ((n, err), s') \<Rightarrow>
          if err \<noteq> None then (w\<lparr>w_io := s'\<rparr>, err)
          else (w\<lparr>w_io := s', fileSize := 4\<rparr>, None))"

definition writer_New :: "'s WriterWithWriterAt \<Rightarrow> 's \<Rightarrow> byte list \<Rightarrow> error + 's Writer" where
  "writer_New wt s fileType =
     (case writer_init wt \<lparr>w_io = s, fileType_w = fileType, fileSize = 0, closed = False\<rparr> of
        (w, Some err) \<Rightarrow> Inl err
      | (w, None) \<Rightarrow> Inr w)"

text \<open>
  \<open>WriteChunk\<close> returns the writer after the call, the byte count and the error.
  \<open>uint32(len(c.Data))\<close> is the length modulo \<open>2 ^ 32\<close>.
\<close>

definition WriteChunk ::
  "'s WriterWithWriterAt \<Rightarrow> 's Writer \<Rightarrow> Chunk \<Rightarrow> 's Writer \<times> int \<times> error option" where
  "WriteChunk wt w c =
     (if \<not> closed w then
        (let newSize = wrap64 (fileSize w + ByteLength c) in
         if newSize > MaxUint32 \<or> newSize < fileSize w then
           (w, 0, Some (Errorf_w ''wrote too many bytes - size overflow'' ErrCorrupted))
         else
           (let b = Pad (Data c) in
            case internal_Write wt (w_io w)
                   [Identifier c, LittleEndianUInt32Bytes (word_of_nat (length (Data c))), b] of
              ((n, err), s') \<Rightarrow>
                if err \<noteq> None then (w\<lparr>w_io := s'\<rparr>, n, err)
                else (w\<lparr>w_io := s', fileSize := wrap64 (fileSize w + n)\<rparr>, n, None)))
      else (w, 0, Some ErrClosed))"

text \<open>\<open>uint32(w.fileSize)\<close> keeps the low 32 bits.\<close>

definition Close :: "'s WriterWithWriterAt \<Rightarrow> 's Writer \<Rightarrow> ('s Writer \<times> error option) outcome" where
  "Close wt w =
     (if \<not> closed w then
        (let w1 = w\<lparr>closed := True\<rparr>;
             fileSizeBytes = LittleEndianUInt32Bytes (word_of_int (fileSize w1)) in
         case internal_WriteAt wt (w_io w1) fileSizeBytes (int (length FourCCRIFF)) of
           Panic \<Rightarrow> Panic
         | Return ((n, err), s') \<Rightarrow>
             if err \<noteq> None then Return (w1\<lparr>w_io := s'\<rparr>, err)
             else Return (w1\<lparr>w_io := s'\<rparr>, None))
      else Return (w, Some ErrClosed))"

section \<open>reader/reader.go\<close>

record 's Reader =
  fileType_r :: "byte list"
  size_r :: "32 word"
  bytesRead :: int
  r_io :: 's

definition errCorruptedTooShort :: error where
  "errCorruptedTooShort = Errorf_w ''read fewer bytes than expected'' ErrCorrupted"

definition errCorruptedReadOutOfBounds :: error where
  "errCorruptedReadOutOfBounds =
     Errorf_w ''read outside file size - file must be corrupt'' ErrCorrupted"

definition wrap_err :: "error \<Rightarrow> error" where
  "wrap_err err =
     (if errors_Is err ErrBufferUnderflow \<or> errors_Is err EOF then errCorruptedTooShort
      else err)"

text \<open>
  \<open>New\<close>: the three arrays start zeroed and are read through \<open>internal.Read\<close>; they
  are the three buffers it hands back.
\<close>

definition reader_New :: "'s io_Reader \<Rightarrow> 's \<Rightarrow> (error + 's Reader) outcome" where
  "reader_New rd s =
     (case internal_Read rd s [replicate 4 0, replicate 4 0, replicate 4 0] of
        ((bufs, n, err), s') \<Rightarrow>
          (case err of
             Some e \<Rightarrow> Return (Inl (wrap_err e))
           | None \<Rightarrow>
               (let riffPrefix = bufs ! 0; size = bufs ! 1; fileType = bufs ! 2 in
                if riffPrefix \<noteq> FourCCRIFF then
                  Return (Inl (Errorf_w ''data does not begin with RIFF header'' ErrCorrupted))
                else
                  (case LittleEndian_Uint32 size of
                     Panic \<Rightarrow> Panic
                   | Return parsedSize \<Rightarrow>
                       (let riffReader =
                              \<lparr>fileType_r = fileType, size_r = parsedSize, bytesRead = 0,
                               r_io = s'\<rparr> in
                        if size_r riffReader < 4 then
                          Return (Inl (Errorf_w ''impossibly small file size'' ErrCorrupted))
                        else Return (Inr (riffReader\<lparr>bytesRead := int (length fileType)\<rparr>)))))))"

text \<open>
  The method \<open>read\<close>: the reader after the call, the buffer as the transport left it,
  \<open>n\<close> and the error.
\<close>

definition Reader_read ::
  "'s io_Reader \<Rightarrow> 's Reader \<Rightarrow> byte list \<Rightarrow> 's Reader \<times> byte list \<times> nat \<times> error option" where
  "Reader_read rd r b =
     (case rd (r_io r) (length b) of ((bs, err), s') \<Rightarrow>
        (let n = length bs;
             r' = r\<lparr>r_io := s', bytesRead := wrap64 (bytesRead r + int n)\<rparr> in
         if err \<noteq> None then (r', copy_into b bs, n, err)
         else if bytesRead r' > PaddedLength (uint (size_r r')) then
           (r', copy_into b bs, n, Some errCorruptedReadOutOfBounds)
         else (r', copy_into b bs, n, None)))"

text \<open>
  \<open>ReadChunk\<close> takes the chunk behind the pointer and returns it as it is when the call
  ends, with the reader, the byte count and the error.
\<close>

definition ReadChunk ::
  "'s io_Reader \<Rightarrow> 's Reader \<Rightarrow> Chunk \<Rightarrow> ('s Reader \<times> Chunk \<times> nat \<times> error option) outcome" where
  "ReadChunk rd r chunk =
     (case Reader_read rd r (replicate LengthChunkHeader 0) of
        (r1, header, headerN, headerErr) \<Rightarrow>
          if headerErr \<noteq> None then Return (r1, chunk, headerN, headerErr)
          else if headerN < length header then Return (r1, chunk, headerN, Some errCorruptedTooShort)
          else
            (case LittleEndian_Uint32 (drop 4 header) of
               Panic \<Rightarrow> Panic
             | Return chunkSize \<Rightarrow>
                 (let data = Pad (replicate (unat chunkSize) 0) in
                  case Reader_read rd r1 data of
                    (r2, data', dataN, dataErr) \<Rightarrow>
                      (let totalN = headerN + dataN in
                       case Must4Byte (take 4 header) of
                         Panic \<Rightarrow> Panic
                       | Return ident \<Rightarrow>
                           (let chunk' = chunk\<lparr>Identifier := ident,
                                               Data := take (unat chunkSize) data'\<rparr> in
                            if dataErr \<noteq> None then Return (r2, chunk', totalN, dataErr)
                            else if dataN < length data then
                              Return (r2, chunk', totalN, Some errCorruptedTooShort)
                            else Return (r2, chunk', totalN, None))))))"

text \<open>The zero value of \<open>internal.Chunk\<close>.\<close>

definition zero_Chunk :: Chunk where
  "zero_Chunk = \<lparr>Identifier = replicate 4 0, Data = []\<rparr>"

text \<open>
  \<open>ReadToEnd\<close> loops until \<open>ReadChunk\<close> fails; on a transport that never fails it does
  not return, which is the value \<open>None\<close>.
\<close>

partial_function (option) ReadToEnd_loop ::
  "'s io_Reader \<Rightarrow> 's Reader \<Rightarrow> Chunk list \<Rightarrow> ('s Reader \<times> Chunk list \<times> error option) outcome option" where
  "ReadToEnd_loop rd r chunks =
     (case ReadChunk rd r zero_Chunk of
        Panic \<Rightarrow> Some Panic
      | Return (r', ch, n, Some err) \<Rightarrow>
          if errors_Is err EOF then Some (Return (r', chunks, None))
          else Some (Return (r', chunks, Some err))
      | Return (r', ch, n, None) \<Rightarrow> ReadToEnd_loop rd r' (chunks @ [ch]))"

definition ReadToEnd ::
  "'s io_Reader \<Rightarrow> 's Reader \<Rightarrow> ('s Reader \<times> Chunk list \<times> error option) outcome option" where
  "ReadToEnd rd r = ReadToEnd_loop rd r []"

section \<open>Transports of the tests\<close>

text \<open>
  \<open>bytes.Reader\<close> (\<open>bytes.NewReader\<close> in the examples and in \<open>internal/test\<close>): the state
  is what is left of the slice; at its end every read, also one of no bytes, is
  \<open>0, io.EOF\<close>.
\<close>

definition bytes_Reader_Read :: "byte list io_Reader" where
  "bytes_Reader_Read s len =
     (if s = [] then (([], Some EOF), s) else ((take len s, None), drop len s))"

text \<open>
  \<open>bytes.Buffer\<close> read as a stream, which \<open>test.Buffer\<close> embeds: as above, but on an
  empty buffer a read of no bytes is \<open>0, nil\<close>.
\<close>

definition bytes_Buffer_Read :: "byte list io_Reader" where
  "bytes_Buffer_Read s len =
     (if s = [] then (if len = 0 then (([], None), s) else (([], Some EOF), s))
      else ((take len s, None), drop len s))"

text \<open>\<open>internal/test/buffer.go\<close>: \<open>bytes.Buffer\<close> with \<open>WriteAt\<close>.\<close>

definition Buffer_Write :: "byte list \<Rightarrow> byte list \<Rightarrow> (nat \<times> error option) \<times> byte list" where
  "Buffer_Write s p = ((length p, None), s @ p)"

definition Buffer_WriteAt ::
  "byte list \<Rightarrow> byte list \<Rightarrow> int \<Rightarrow> ((nat \<times> error option) \<times> byte list) outcome" where
  "Buffer_WriteAt s b offset =
     (if offset > int (length s) \<or> offset < 0 then Panic
      else Return ((length b, None),
                   take (nat offset) s @ b @ drop (nat offset + length b) s))"

definition Buffer :: "byte list WriterWithWriterAt" where
  "Buffer = \<lparr>Write = Buffer_Write, WriteAt = Buffer_WriteAt\<rparr>"

text \<open>
  A file on a device with room for \<open>cap\<close> bytes: a write that does not fit stores what
  fits and returns that count with an error.
\<close>

definition disk_Write :: "nat \<Rightarrow> byte list \<Rightarrow> byte list \<Rightarrow> (nat \<times> error option) \<times> byte list" where
  "disk_Write cap s p =
     (if length s + length p \<le> cap then ((length p, None), s @ p)
      else ((cap - length s, Some (TransportError 28)), s @ take (cap - length s) p))"

definition disk :: "nat \<Rightarrow> byte list WriterWithWriterAt" where
  "disk cap = \<lparr>Write = disk_Write cap, WriteAt = Buffer_WriteAt\<rparr>"

section \<open>wave/wave.go\<close>

definition LengthFormatChunk :: nat where
  "LengthFormatChunk = LengthChunkHeader + 16"

definition FileTypeWavefile :: "byte list" where
  "FileTypeWavefile = [0x57, 0x41, 0x56, 0x45]"

definition ErrBadWaveData :: error where
  "ErrBadWaveData = wrappingError ''invalid Wavefile data'' ErrCorrupted"

definition ErrInvalidChannelCount :: error where
  "ErrInvalidChannelCount = wrappingError ''invalid channel count'' ErrBadWaveData"

definition ErrInvalidSampleRate :: error where
  "ErrInvalidSampleRate = wrappingError ''invalid sample rate'' ErrBadWaveData"

definition ErrInconsistentBytesPerSecond :: error where
  "ErrInconsistentBytesPerSecond =
     wrappingError ''bytes per second was inconsistent'' ErrBadWaveData"

definition ErrInconsistentBlockAlignment :: error where
  "ErrInconsistentBlockAlignment =
     wrappingError ''block alignment was inconsistent'' ErrBadWaveData"

definition ErrInvalidBitRate :: error where
  "ErrInvalidBitRate = wrappingError ''invalid bit rate'' ErrBadWaveData"

record Format =
  BitsPerSample :: "16 word"
  Channels :: "16 word"
  SampleRate :: "32 word"
  AudioFormat :: "16 word"

definition zero_Format :: Format where
  "zero_Format = \<lparr>BitsPerSample = 0, Channels = 0, SampleRate = 0, AudioFormat = 0\<rparr>"

text \<open>Both products are computed in the width of their type, left to right.\<close>

definition BlockAlign :: "Format \<Rightarrow> 16 word" where
  "BlockAlign f = BitsPerSample f div 8 * Channels f"

definition BytesPerSecond :: "Format \<Rightarrow> 32 word" where
  "BytesPerSecond f = SampleRate f * ucast (BitsPerSample f) div 8 * ucast (Channels f)"

definition Validate :: "Format \<Rightarrow> error option" where
  "Validate f =
     (if BitsPerSample f = 0 then Some (Errorf_w ''bit rate cannot be 0'' ErrInvalidBitRate)
      else if BitsPerSample f mod 8 \<noteq> 0 then
        Some (Errorf_w ''bit rate must be a multiple of 8'' ErrInvalidBitRate)
      else if Channels f = 0 then
        Some (Errorf_w ''channel count cannot be 0'' ErrInvalidChannelCount)
      else if SampleRate f = 0 then
        Some (Errorf_w ''sample rate cannot be 0'' ErrInvalidSampleRate)
      else None)"

text \<open>
  \<open>bytes.Reader\<close> as an \<open>io.ByteReader\<close>: the state is the rest of the slice.
  \<open>ReadLittleEndianUInt16\<close> and \<open>ReadLittleEndianUInt32\<close> collect \<open>k\<close> bytes one by one
  and panic when \<open>ReadByte\<close> fails.
\<close>

fun read_bytes :: "nat \<Rightarrow> byte list \<Rightarrow> byte list \<Rightarrow> (byte list \<times> byte list) outcome" where
  "read_bytes 0 acc buffer = Return (acc, buffer)"
| "read_bytes (Suc k) acc [] = Panic"
| "read_bytes (Suc k) acc (b # buffer) = read_bytes k (acc @ [b]) buffer"

definition ReadLittleEndianUInt16 :: "byte list \<Rightarrow> (16 word \<times> byte list) outcome" where
  "ReadLittleEndianUInt16 buffer =
     (case read_bytes 2 [] buffer of
        Panic \<Rightarrow> Panic
      | Return (bs, rest) \<Rightarrow>
          (case LittleEndian_Uint16 bs of Panic \<Rightarrow> Panic | Return v \<Rightarrow> Return (v, rest)))"

definition ReadLittleEndianUInt32 :: "byte list \<Rightarrow> (32 word \<times> byte list) outcome" where
  "ReadLittleEndianUInt32 buffer =
     (case read_bytes 4 [] buffer of
        Panic \<Rightarrow> Panic
      | Return (bs, rest) \<Rightarrow>
          (case LittleEndian_Uint32 bs of Panic \<Rightarrow> Panic | Return v \<Rightarrow> Return (v, rest)))"

text \<open>The six reads of \<open>FormatFromReader\<close>, in the order of the source.\<close>

definition parse_fields ::
  "byte list \<Rightarrow> (Format \<times> 32 word \<times> 16 word) outcome" where
  "parse_fields buffer =
     (case ReadLittleEndianUInt16 buffer of Panic \<Rightarrow> Panic | Return (audioFormat, b1) \<Rightarrow>
     (case ReadLittleEndianUInt16 b1 of Panic \<Rightarrow> Panic | Return (channels, b2) \<Rightarrow>
     (case ReadLittleEndianUInt32 b2 of Panic \<Rightarrow> Panic | Return (sampleRate, b3) \<Rightarrow>
     (case ReadLittleEndianUInt32 b3 of Panic \<Rightarrow> Panic | Return (expectedBytesPerSecond, b4) \<Rightarrow>
     (case ReadLittleEndianUInt16 b4 of Panic \<Rightarrow> Panic | Return (expectedBlockAlign, b5) \<Rightarrow>
     (case ReadLittleEndianUInt16 b5 of Panic \<Rightarrow> Panic | Return (bitsPerSample, b6) \<Rightarrow>
        Return (\<lparr>BitsPerSample = bitsPerSample, Channels = channels,
                 SampleRate = sampleRate, AudioFormat = audioFormat\<rparr>,
                expectedBytesPerSecond, expectedBlockAlign)))))))"

text \<open>
  A \<open>goriffa.Reader\<close> is its \<open>ReadChunk\<close> method: from the chunk behind the pointer to
  that chunk after the call, the count and the error.
\<close>

type_synonym goriffa_Reader = "Chunk \<Rightarrow> (Chunk \<times> nat \<times> error option) outcome"

definition FormatFromReader :: "goriffa_Reader \<Rightarrow> (Format \<times> error option) outcome" where
  "FormatFromReader r =
     (case r zero_Chunk of
        Panic \<Rightarrow> Panic
      | Return (ch, n, err) \<Rightarrow>
          if err \<noteq> None then Return (zero_Format, err)
          else if n \<noteq> LengthFormatChunk then
            Return (zero_Format, Some (Errorf_w ''format chunk is invalid size'' ErrBadWaveData))
          else if Identifier ch \<noteq> FourCCFormat then
            Return (zero_Format, Some (Errorf_w ''format chunk FOURCC incorrect'' ErrBadWaveData))
          else
            (case parse_fields (Data ch) of
               Panic \<Rightarrow> Panic
             | Return (f, expectedBytesPerSecond, expectedBlockAlign) \<Rightarrow>
                 if expectedBytesPerSecond \<noteq> BytesPerSecond f then
                   Return (f, Some (Errorf_w
                     ''stream has invalid average bytes-per-second field''
                     ErrInconsistentBytesPerSecond))
                 else if expectedBlockAlign \<noteq> BlockAlign f then
                   Return (f, Some (Errorf_w ''stream contained invalid block alignment''
                     ErrInconsistentBlockAlignment))
                 else (case Validate f of Some err \<Rightarrow> Return (f, Some err)
                       | None \<Rightarrow> Return (f, None))))"

text \<open>The reader of \<open>reader/reader.go\<close> as a \<open>goriffa.Reader\<close>.\<close>

definition as_goriffa_Reader :: "'s io_Reader \<Rightarrow> 's Reader \<Rightarrow> goriffa_Reader" where
  "as_goriffa_Reader rd r chunk =
     (case ReadChunk rd r chunk of
        Panic \<Rightarrow> Panic
      | Return (r', ch, n, err) \<Rightarrow> Return (ch, n, err))"

section \<open>reader/reader_example_test.go\<close>

text \<open>The bytes behind \<open>RIFFReader()\<close>: a header and two chunks, the first one padded.\<close>

definition RIFFReader :: "byte list" where
  "RIFFReader =
     FourCCRIFF @ [42, 0, 0, 0] @ FileTypeWavefile
     @ FourCCFormat @ [5, 0, 0, 0] @ [1, 2, 3, 4, 5, 0]
     @ FourCCData @ [8, 0, 0, 0] @ [1, 2, 3, 4, 5, 6, 7, 8]"

section \<open>The tests of package wave\<close>

text \<open>
  \<open>fmtExample\<close> is the format chunk that \<open>TestMain\<close> builds; \<open>readerFrom\<close> is the mock
  \<open>goriffa.Reader\<close> whose \<open>ReadChunk\<close> stores the given chunk and returns
  \<open>len(fmtExample)\<close>.
\<close>

definition fmtExample :: "byte list" where
  "fmtExample =
     FourCCFormat @ LittleEndianUInt32Bytes 16
     @ LittleEndianUInt16Bytes 1 @ LittleEndianUInt16Bytes 2
     @ LittleEndianUInt32Bytes 44100 @ LittleEndianUInt32Bytes 176400
     @ LittleEndianUInt16Bytes 4 @ LittleEndianUInt16Bytes 16"

definition readerFrom :: "Chunk \<Rightarrow> goriffa_Reader" where
  "readerFrom ch c = Return (ch, length fmtExample, None)"

section \<open>Writing a file and reading it back\<close>

text \<open>
  \<open>chunk_bytes\<close> is \<open>chunk\<close> of \<open>reader/reader_test.go\<close>: a chunk as it stands in the
  stream. \<open>WriteChunks\<close> and \<open>write_file\<close> are the calls of \<open>TestWriteReadFile\<close> and
  \<open>testFile\<close> in \<open>goriffa_test.go\<close>: \<open>New\<close>, \<open>WriteChunk\<close> for each chunk, \<open>Close\<close>; the
  result is what the transport holds. \<open>wire_length\<close> is \<open>ByteLength\<close> as a number,
  without the wrap-around of \<open>int64\<close>.
\<close>

definition chunk_bytes :: "Chunk \<Rightarrow> byte list" where
  "chunk_bytes c =
     Identifier c @ LittleEndianUInt32Bytes (word_of_nat (length (Data c))) @ Pad (Data c)"

fun WriteChunks :: "'s WriterWithWriterAt \<Rightarrow> 's Writer \<Rightarrow> Chunk list \<Rightarrow> 's Writer \<times> error option" where
  "WriteChunks wt w [] = (w, None)"
| "WriteChunks wt w (c # cs) =
     (case WriteChunk wt w c of
        (w', n, Some e) \<Rightarrow> (w', Some e)
      | (w', n, None) \<Rightarrow> WriteChunks wt w' cs)"

definition write_file ::
  "'s WriterWithWriterAt \<Rightarrow> 's \<Rightarrow> byte list \<Rightarrow> Chunk list \<Rightarrow> (error + 's) outcome" where
  "write_file wt s fileType cs =
     (case writer_New wt s fileType of
        Inl e \<Rightarrow> Return (Inl e)
      | Inr w \<Rightarrow>
          (case WriteChunks wt w cs of
             (w', Some e) \<Rightarrow> Return (Inl e)
           | (w', None) \<Rightarrow>
               (case Close wt w' of
                  Panic \<Rightarrow> Panic
                | Return (w'', Some e) \<Rightarrow> Return (Inl e)
                | Return (w'', None) \<Rightarrow> Return (Inr (w_io w'')))))"

definition wire_length :: "Chunk \<Rightarrow> nat" where
  "wire_length c = 8 + (length (Data c) + length (Data c) mod 2)"

section \<open>Arithmetic and encoding\<close>

lemma wrap64_id: "- (2 ^ 63) \<le> x \<Longrightarrow> x < 2 ^ 63 \<Longrightarrow> wrap64 x = x"
  by (simp add: wrap64_def)

lemma wrap64_high: "2 ^ 63 \<le> x \<Longrightarrow> x < 2 ^ 64 + 2 ^ 63 \<Longrightarrow> wrap64 x = x - 2 ^ 64"
proof -
  assume a: "2 ^ 63 \<le> x" "x < 2 ^ 64 + 2 ^ 63"
  have "(x + 2 ^ 63) mod 2 ^ 64 = (x + 2 ^ 63 - 2 ^ 64) mod 2 ^ 64"
    by (metis mod_diff_right_eq mod_self diff_zero)
  also have "\<dots> = x + 2 ^ 63 - 2 ^ 64"
    using a by (simp add: mod_pos_pos_trivial)
  finally show ?thesis
    by (simp add: wrap64_def)
qed

lemma wrap64_wrap64_add: "wrap64 (a + wrap64 b) = wrap64 (a + b)"
proof -
  have "(a + ((b + 2 ^ 63) mod 2 ^ 64 - 2 ^ 63) + 2 ^ 63) mod 2 ^ 64
        = (a + (b + 2 ^ 63) mod 2 ^ 64) mod (2 ^ 64 :: int)"
    by (simp add: algebra_simps)
  also have "\<dots> = (a + (b + 2 ^ 63)) mod 2 ^ 64"
    by (simp add: mod_add_right_eq)
  finally show ?thesis
    by (simp add: wrap64_def algebra_simps)
qed

lemma go_rem_nonneg: "0 \<le> n \<Longrightarrow> go_rem n 2 = n mod 2"
  by (cases "n = 0") (simp_all add: go_rem_def)

lemma PaddedLength_wrap:
  assumes "0 \<le> n" "n < 2 ^ 63"
  shows "PaddedLength n = wrap64 (n + n mod 2)"
proof (cases "n mod 2 = 0")
  case True
  then show ?thesis
    using assms by (simp add: PaddedLength_def wordLength_def go_rem_nonneg wrap64_id)
next
  case False
  then have m: "n mod 2 = 1"
    by presburger
  have "wrap64 (2 - 1) = 1"
    by (simp add: wrap64_def)
  then show ?thesis
    using assms m by (simp add: PaddedLength_def wordLength_def go_rem_nonneg)
qed

lemma PaddedLength_nonneg:
  "0 \<le> n \<Longrightarrow> n < 2 ^ 63 - 1 \<Longrightarrow> PaddedLength n = n + n mod 2"
  by (simp add: PaddedLength_wrap wrap64_id)

lemma ByteLength_wrap:
  assumes "int (length (Data c)) < 2 ^ 63"
  shows "ByteLength c = wrap64 (8 + (int (length (Data c)) + int (length (Data c)) mod 2))"
  using assms by (simp add: ByteLength_def PaddedLength_wrap wrap64_wrap64_add)

lemma length_Pad: "length (Pad b) = length b + length b mod 2"
  by (simp add: Pad_def wordLength_def go_rem_nonneg Let_def) presburger

lemma LE32_roundtrip: "LittleEndian_Uint32 (LittleEndianUInt32Bytes u) = Return u"
  unfolding LittleEndianUInt32Bytes_def
  apply simp
  apply (rule bit_word_eqI)
  subgoal for n
    by (cases "n < 8"; cases "n < 16"; cases "n < 24") (auto simp: bit_simps)
  done

lemma LE16_roundtrip: "LittleEndian_Uint16 (LittleEndianUInt16Bytes u) = Return u"
  unfolding LittleEndianUInt16Bytes_def
  apply simp
  apply (rule bit_word_eqI)
  subgoal for n
    by (cases "n < 8") (auto simp: bit_simps)
  done

lemma uint32_fileSize:
  "0 \<le> x \<Longrightarrow> x \<le> MaxUint32 \<Longrightarrow> uint (word_of_int x :: 32 word) = x"
  by (simp add: MaxUint32_def uint_word_of_int take_bit_int_eq_self)

lemma errors_Is_refl: "errors_Is e e"
  by (cases e) simp_all

section \<open>The writer\<close>

lemma Close_open:
  "\<not> closed w \<Longrightarrow>
     Close wt w =
       (case WriteAt wt (w_io w) (LittleEndianUInt32Bytes (word_of_int (fileSize w))) 4 of
          Panic \<Rightarrow> Panic
        | Return ((n, err), s') \<Rightarrow>
            Return (w\<lparr>closed := True, w_io := s'\<rparr>,
                    if err \<noteq> None then err else if n < 4 then Some ErrShortWrite else None))"
  by (auto simp: Close_def internal_WriteAt_def FourCCRIFF_def LittleEndianUInt32Bytes_def Let_def
           split: outcome.splits prod.splits)

lemma Close_closed: "closed w \<Longrightarrow> Close wt w = Return (w, Some ErrClosed)"
  by (simp add: Close_def)

lemma WriteChunk_closed: "closed w \<Longrightarrow> WriteChunk wt w c = (w, 0, Some ErrClosed)"
  by (simp add: WriteChunk_def)

lemma Close_marks_closed: "Close wt w = Return (w1, e1) \<Longrightarrow> closed w1"
  by (auto simp: Close_def Let_def split: if_splits outcome.splits prod.splits)

text \<open>
  Whatever the transport does, a call of \<open>WriteChunk\<close> that returns an error leaves the
  running size as it was: the size is committed after the error check.
\<close>

lemma WriteChunk_error_keeps_fileSize:
  "WriteChunk wt w c = (w', n, Some e) \<Longrightarrow> fileSize w' = fileSize w"
  by (auto simp: WriteChunk_def Let_def split: if_splits prod.splits)

subsection \<open>C1\<close>

text \<open>
  C1 says that when a transport write fails partway through \<open>WriteChunk\<close>, the error is
  returned as it is and the running size is advanced by the bytes that reached the
  transport. The code returns before it commits the size. On a device with room for 18
  bytes the header of the container (12 bytes) fits; of the chunk \<open>"data"\<close>,
  \<open>[1, 2, 3, 4]\<close> the identifier and two bytes of the length reach the transport, the
  call returns 6 with the error of the transport, and the running size is still 4.
\<close>

theorem WriteChunk_partial_failure_size_not_advanced:
  "writer_New (disk 18) [] FileTypeWavefile =
     Inr \<lparr>w_io = FourCCRIFF @ EmptyBytes @ FileTypeWavefile,
          fileType_w = FileTypeWavefile, fileSize = 4, closed = False\<rparr>
   \<and> WriteChunk (disk 18)
        \<lparr>w_io = FourCCRIFF @ EmptyBytes @ FileTypeWavefile,
         fileType_w = FileTypeWavefile, fileSize = 4, closed = False\<rparr>
        \<lparr>Identifier = FourCCData, Data = [1, 2, 3, 4]\<rparr> =
      (\<lparr>w_io = FourCCRIFF @ EmptyBytes @ FileTypeWavefile @ FourCCData @ [4, 0],
        fileType_w = FileTypeWavefile, fileSize = 4, closed = False\<rparr>,
       6, Some (TransportError 28))"
  by (simp add: writer_New_def writer_init_def WriteChunk_def ByteLength_def PaddedLength_def
        go_rem_def wordLength_def MaxUint32_def Pad_def internal_Write_def disk_def
        disk_Write_def FourCCRIFF_def EmptyBytes_def FileTypeWavefile_def FourCCData_def
        wrap64_def LittleEndianUInt32Bytes_def)

subsection \<open>C6\<close>

text \<open>
  C6 as stated covers every writer state. On a closed writer the guard on \<open>closed\<close>
  comes first: the call fails with \<open>ErrClosed\<close>, which is not \<open>ErrCorrupted\<close>, also
  when the sum is beyond the largest unsigned 32-bit value.
\<close>

theorem WriteChunk_overflow_closed_counterexample:
  "fileSize \<lparr>w_io = FourCCRIFF @ EmptyBytes @ FileTypeWavefile,
             fileType_w = FileTypeWavefile, fileSize = MaxUint32, closed = True\<rparr>
     + (8 + PaddedLength (int (length (Data \<lparr>Identifier = FourCCData, Data = []\<rparr>))))
     > MaxUint32
   \<and> WriteChunk Buffer
        \<lparr>w_io = FourCCRIFF @ EmptyBytes @ FileTypeWavefile,
         fileType_w = FileTypeWavefile, fileSize = MaxUint32, closed = True\<rparr>
        \<lparr>Identifier = FourCCData, Data = []\<rparr> =
      (\<lparr>w_io = FourCCRIFF @ EmptyBytes @ FileTypeWavefile,
        fileType_w = FileTypeWavefile, fileSize = MaxUint32, closed = True\<rparr>,
       0, Some ErrClosed)
   \<and> \<not> errors_Is ErrClosed ErrCorrupted"
  by (simp add: WriteChunk_def PaddedLength_def go_rem_def wordLength_def MaxUint32_def)

text \<open>
  C6, amended: for every open writer (its running size is an \<open>int64\<close>, of either sign)
  and every chunk (the length of its data is a Go \<open>int\<close>): if the running size plus the
  on-wire length of the chunk, 8 plus the data length rounded up to even, is beyond the
  largest unsigned 32-bit value (an addition that wraps around in \<open>int64\<close> is such a
  sum), then \<open>WriteChunk\<close> fails with an error that is \<open>ErrCorrupted\<close>, returns 0, and
  leaves the writer, its transport and its running size as they were.
\<close>

theorem WriteChunk_overflow:
  assumes "\<not> closed w"
    and "- (2 ^ 63) \<le> fileSize w" and "fileSize w < 2 ^ 63"
    and "int (length (Data c)) < 2 ^ 63"
    and "fileSize w + (8 + (int (length (Data c)) + int (length (Data c)) mod 2)) > MaxUint32"
  shows "WriteChunk wt w c =
           (w, 0, Some (Errorf_w ''wrote too many bytes - size overflow'' ErrCorrupted))
         \<and> errors_Is (Errorf_w ''wrote too many bytes - size overflow'' ErrCorrupted)
              ErrCorrupted"
proof -
  let ?n = "int (length (Data c))"
  let ?T = "fileSize w + (8 + (?n + ?n mod 2))"
  have ns: "wrap64 (fileSize w + ByteLength c) = wrap64 ?T"
    using assms(4) by (simp add: ByteLength_wrap wrap64_wrap64_add)
  have m: "0 \<le> ?n mod 2" "?n mod 2 \<le> 1"
    by simp_all
  have chk: "wrap64 ?T > MaxUint32 \<or> wrap64 ?T < fileSize w"
  proof (cases "?T < 2 ^ 63")
    case True
    moreover have "- (2 ^ 63) \<le> ?T"
      using assms(5) by (simp add: MaxUint32_def)
    ultimately have "wrap64 ?T = ?T"
      by (rule wrap64_id[rotated])
    then show ?thesis
      using assms(5) by simp
  next
    case False
    then have "2 ^ 63 \<le> ?T"
      by simp
    moreover have "?T < 2 ^ 64 + 2 ^ 63"
      using assms(3,4) m by simp
    ultimately have "wrap64 ?T = ?T - 2 ^ 64"
      by (rule wrap64_high)
    then show ?thesis
      using assms(4) m by simp
  qed
  show ?thesis
    using assms(1) chk by (simp add: WriteChunk_def ns Let_def)
qed

theorem WriteChunk_overflow_witness:
  "WriteChunk Buffer
     \<lparr>w_io = FourCCRIFF @ EmptyBytes @ FileTypeWavefile,
      fileType_w = FileTypeWavefile, fileSize = MaxUint32, closed = False\<rparr>
     \<lparr>Identifier = FourCCData, Data = []\<rparr> =
   (\<lparr>w_io = FourCCRIFF @ EmptyBytes @ FileTypeWavefile,
     fileType_w = FileTypeWavefile, fileSize = MaxUint32, closed = False\<rparr>,
    0, Some (Errorf_w ''wrote too many bytes - size overflow'' ErrCorrupted))"
  using WriteChunk_overflow
    [of "\<lparr>w_io = FourCCRIFF @ EmptyBytes @ FileTypeWavefile,
          fileType_w = FileTypeWavefile, fileSize = MaxUint32, closed = False\<rparr>"
        "\<lparr>Identifier = FourCCData, Data = []\<rparr>" Buffer]
  by (simp add: MaxUint32_def)

subsection \<open>C8\<close>

text \<open>
  C8: the first \<open>Close\<close> marks the writer closed and makes one call of the transport's
  \<open>WriteAt\<close>, with the running size as four little-endian bytes (they decode to the low
  32 bits of the size, which is the size itself up to the largest unsigned 32-bit value)
  at offset 4. Whatever that call returned, the writer that \<open>Close\<close> leaves is closed:
  another \<open>Close\<close> returns \<open>ErrClosed\<close> and leaves writer and transport as they are,
  and so does every \<open>WriteChunk\<close>, with count 0.
\<close>

theorem Close_one_shot:
  "(\<not> closed w \<longrightarrow>
      Close wt w =
        (case WriteAt wt (w_io w) (LittleEndianUInt32Bytes (word_of_int (fileSize w))) 4 of
           Panic \<Rightarrow> Panic
         | Return ((n, err), s') \<Rightarrow>
             Return (w\<lparr>closed := True, w_io := s'\<rparr>,
                     if err \<noteq> None then err else if n < 4 then Some ErrShortWrite else None)))
   \<and> LittleEndian_Uint32 (LittleEndianUInt32Bytes (word_of_int (fileSize w))) =
       Return (word_of_int (fileSize w))
   \<and> (0 \<le> fileSize w \<and> fileSize w \<le> MaxUint32 \<longrightarrow>
        uint (word_of_int (fileSize w) :: 32 word) = fileSize w)
   \<and> (\<forall>w1 e1. Close wt w = Return (w1, e1) \<longrightarrow>
        closed w1 \<and> Close wt w1 = Return (w1, Some ErrClosed)
        \<and> (\<forall>c. WriteChunk wt w1 c = (w1, 0, Some ErrClosed)))"
  using Close_open[of w wt] LE32_roundtrip uint32_fileSize[of "fileSize w"]
  by (auto dest!: Close_marks_closed simp: Close_closed WriteChunk_closed)

theorem Close_one_shot_witness:
  "\<not> closed \<lparr>w_io = FourCCRIFF @ EmptyBytes @ FileTypeWavefile,
             fileType_w = FileTypeWavefile, fileSize = 4, closed = False\<rparr>
   \<and> Close Buffer
        \<lparr>w_io = FourCCRIFF @ EmptyBytes @ FileTypeWavefile,
         fileType_w = FileTypeWavefile, fileSize = 4, closed = False\<rparr> =
      Return (\<lparr>w_io = FourCCRIFF @ [4, 0, 0, 0] @ FileTypeWavefile,
               fileType_w = FileTypeWavefile, fileSize = 4, closed = True\<rparr>, None)
   \<and> Close Buffer
        \<lparr>w_io = FourCCRIFF @ [4, 0, 0, 0] @ FileTypeWavefile,
         fileType_w = FileTypeWavefile, fileSize = 4, closed = True\<rparr> =
      Return (\<lparr>w_io = FourCCRIFF @ [4, 0, 0, 0] @ FileTypeWavefile,
               fileType_w = FileTypeWavefile, fileSize = 4, closed = True\<rparr>, Some ErrClosed)
   \<and> WriteChunk Buffer
        \<lparr>w_io = FourCCRIFF @ [4, 0, 0, 0] @ FileTypeWavefile,
         fileType_w = FileTypeWavefile, fileSize = 4, closed = True\<rparr>
        \<lparr>Identifier = FourCCData, Data = [1, 2, 3]\<rparr> =
      (\<lparr>w_io = FourCCRIFF @ [4, 0, 0, 0] @ FileTypeWavefile,
        fileType_w = FileTypeWavefile, fileSize = 4, closed = True\<rparr>, 0, Some ErrClosed)"
proof -
  let ?w = "\<lparr>w_io = FourCCRIFF @ EmptyBytes @ FileTypeWavefile,
             fileType_w = FileTypeWavefile, fileSize = 4, closed = False\<rparr>"
  let ?w1 = "\<lparr>w_io = FourCCRIFF @ [4, 0, 0, 0] @ FileTypeWavefile,
              fileType_w = FileTypeWavefile, fileSize = 4, closed = True\<rparr>"
  have op: "\<not> closed ?w"
    by simp
  have c: "Close Buffer ?w = Return (?w1, None)"
    using Close_one_shot[of ?w Buffer] op
    by (simp add: Buffer_def Buffer_WriteAt_def FourCCRIFF_def EmptyBytes_def
          FileTypeWavefile_def LittleEndianUInt32Bytes_def)
  show ?thesis
    using Close_one_shot[of ?w Buffer] op c by simp
qed

section \<open>The reader\<close>

lemma length_copy_into: "length (copy_into dst src) = length dst"
  by (simp add: copy_into_def)

lemma copy_into_full: "length src = length dst \<Longrightarrow> copy_into dst src = src"
  by (simp add: copy_into_def)

lemma internal_Read_loop_lengths:
  "internal_Read_loop rd s content t = ((bufs, n, e), s') \<Longrightarrow> map length bufs = map length content"
proof (induction content arbitrary: s t bufs n e s')
  case Nil
  then show ?case by simp
next
  case (Cons b content)
  then show ?case
    by (fastforce simp: Let_def length_copy_into split: prod.splits if_splits)
qed

lemma LittleEndian_Uint32_total:
  "length b = 4 \<Longrightarrow> \<exists>v. LittleEndian_Uint32 b = Return v"
  by (cases b rule: LittleEndian_Uint32.cases) auto



lemma reader_New_read_error:
  "internal_Read rd s [replicate 4 0, replicate 4 0, replicate 4 0] = ((bufs, n, Some e), s')
   \<Longrightarrow> reader_New rd s = Return (Inl (wrap_err e))"
  by (simp add: reader_New_def)

lemma reader_New_read_ok:
  assumes "internal_Read rd s [replicate 4 0, replicate 4 0, replicate 4 0] = ((bufs, n, None), s')"
  shows "\<exists>sz. LittleEndian_Uint32 (bufs ! 1) = Return sz \<and>
          reader_New rd s =
           (if bufs ! 0 \<noteq> FourCCRIFF then
              Return (Inl (Errorf_w ''data does not begin with RIFF header'' ErrCorrupted))
            else if sz < 4 then Return (Inl (Errorf_w ''impossibly small file size'' ErrCorrupted))
            else Return (Inr \<lparr>fileType_r = bufs ! 2, size_r = sz, bytesRead = 4, r_io = s'\<rparr>))"
proof -
  have "map length bufs = [4, 4, 4]"
    using internal_Read_loop_lengths[OF assms[unfolded internal_Read_def]] by simp
  then obtain b0 b1 b2 where bufs: "bufs = [b0, b1, b2]" and l: "length b0 = 4" "length b1 = 4" "length b2 = 4"
    by (auto simp: map_eq_Cons_conv)
  obtain sz where sz: "LittleEndian_Uint32 b1 = Return sz"
    using LittleEndian_Uint32_total[OF l(2)] by blast
  show ?thesis
    using assms sz l by (auto simp: reader_New_def bufs Let_def)
qed


lemma bytes_Reader_header_full:
  assumes "12 \<le> length bs"
  shows "internal_Read bytes_Reader_Read bs [replicate 4 0, replicate 4 0, replicate 4 0]
            = (([take 4 bs, take 4 (drop 4 bs), take 4 (drop 8 bs)], 12, None), drop 12 bs)"
  using assms
  by (auto simp: internal_Read_def bytes_Reader_Read_def Let_def copy_into_def wrap64_def min_def add.commute)

lemma Reader_read_length: "Reader_read rd r b = (r', b', n, e) \<Longrightarrow> length b' = length b"
  by (auto simp: Reader_read_def Let_def length_copy_into split: prod.splits if_splits)

lemma ReadChunk_unfold:
  assumes "Reader_read rd r (replicate 8 0) = (r1, header, hN, hErr)"
  shows "\<exists>sz. LittleEndian_Uint32 (drop 4 header) = Return sz \<and>
     ReadChunk rd r chunk =
       (if hErr \<noteq> None then Return (r1, chunk, hN, hErr)
        else if hN < 8 then Return (r1, chunk, hN, Some errCorruptedTooShort)
        else (case Reader_read rd r1 (Pad (replicate (unat sz) 0)) of
                (r2, data', dN, dErr) \<Rightarrow>
                  Return (r2, \<lparr>Identifier = take 4 header, Data = take (unat sz) data'\<rparr>, hN + dN,
                          if dErr \<noteq> None then dErr
                          else if dN < unat sz + unat sz mod 2 then Some errCorruptedTooShort
                          else None)))"
proof -
  have l: "length header = 8"
    using Reader_read_length[OF assms] by simp
  then obtain sz where sz: "LittleEndian_Uint32 (drop 4 header) = Return sz"
    using LittleEndian_Uint32_total[of "drop 4 header"] by auto
  have m: "Must4Byte (take 4 header) = Return (take 4 header)"
    using l by (simp add: Must4Byte_def)
  show ?thesis
    apply (rule exI[of _ sz])
    apply (simp add: sz)
    apply (simp add: ReadChunk_def LengthChunkHeader_def assms l sz m Let_def length_Pad
                split: prod.splits)
    done
qed

lemma ReadChunk_no_panic: "ReadChunk rd r chunk \<noteq> Panic"
proof -
  obtain r1 header hN hErr where h: "Reader_read rd r (replicate 8 0) = (r1, header, hN, hErr)"
    by (metis prod_cases4)
  show ?thesis
    using ReadChunk_unfold[OF h, of chunk]
    by (elim exE conjE) (simp split: prod.splits)
qed

lemma Reader_read_oob:
  "rd (r_io r) (length b) = ((bs, None), s') \<Longrightarrow>
   wrap64 (bytesRead r + int (length bs)) > PaddedLength (uint (size_r r)) \<Longrightarrow>
   Reader_read rd r b =
     (r\<lparr>r_io := s', bytesRead := wrap64 (bytesRead r + int (length bs))\<rparr>, copy_into b bs,
      length bs, Some errCorruptedReadOutOfBounds)"
  by (simp add: Reader_read_def Let_def)

lemma Reader_read_None:
  "Reader_read rd r b = (r', b', n, None) \<Longrightarrow>
   bytesRead r' \<le> PaddedLength (uint (size_r r')) \<and> size_r r' = size_r r
   \<and> fileType_r r' = fileType_r r"
  by (auto simp: Reader_read_def Let_def split: prod.splits if_splits)

lemma Reader_read_fields:
  "Reader_read rd r b = (r', b', n, e) \<Longrightarrow> size_r r' = size_r r \<and> fileType_r r' = fileType_r r"
  by (auto simp: Reader_read_def Let_def split: prod.splits if_splits)

lemma errCorrupted_Is:
  "errors_Is errCorruptedReadOutOfBounds ErrCorrupted" "errors_Is errCorruptedTooShort ErrCorrupted"
  by (simp_all add: errCorruptedReadOutOfBounds_def errCorruptedTooShort_def)

lemma ReadChunk_header_error:
  "Reader_read rd r (replicate 8 0) = (r1, h, n, Some e) \<Longrightarrow>
   ReadChunk rd r chunk = Return (r1, chunk, n, Some e)"
  using ReadChunk_unfold[of rd r r1 h n "Some e" chunk] by auto

lemma ReadChunk_data_error:
  assumes "Reader_read rd r (replicate 8 0) = (r1, h, n, None)" "8 \<le> n"
    and "LittleEndian_Uint32 (drop 4 h) = Return sz"
    and "Reader_read rd r1 (Pad (replicate (unat sz) 0)) = (r2, d, m, Some e)"
  shows "ReadChunk rd r chunk =
           Return (r2, \<lparr>Identifier = take 4 h, Data = take (unat sz) d\<rparr>, n + m, Some e)"
  using ReadChunk_unfold[OF assms(1), of chunk] assms(2,3,4) by auto

lemma ReadChunk_success:
  assumes "ReadChunk rd r chunk = Return (r', ch, n, None)"
  shows "\<exists>r1 h hN sz d dN.
           Reader_read rd r (replicate 8 0) = (r1, h, hN, None) \<and> 8 \<le> hN
           \<and> LittleEndian_Uint32 (drop 4 h) = Return sz
           \<and> Reader_read rd r1 (Pad (replicate (unat sz) 0)) = (r', d, dN, None)
           \<and> unat sz + unat sz mod 2 \<le> dN
           \<and> ch = \<lparr>Identifier = take 4 h, Data = take (unat sz) d\<rparr> \<and> n = hN + dN"
proof -
  obtain r1 h hN hErr where h: "Reader_read rd r (replicate 8 0) = (r1, h, hN, hErr)"
    by (metis prod_cases4)
  from ReadChunk_unfold[OF h, of chunk] obtain sz where
    sz: "LittleEndian_Uint32 (drop 4 h) = Return sz" and
    rc: "ReadChunk rd r chunk =
       (if hErr \<noteq> None then Return (r1, chunk, hN, hErr)
        else if hN < 8 then Return (r1, chunk, hN, Some errCorruptedTooShort)
        else (case Reader_read rd r1 (Pad (replicate (unat sz) 0)) of
                (r2, data', dN, dErr) \<Rightarrow>
                  Return (r2, \<lparr>Identifier = take 4 h, Data = take (unat sz) data'\<rparr>, hN + dN,
                          if dErr \<noteq> None then dErr
                          else if dN < unat sz + unat sz mod 2 then Some errCorruptedTooShort
                          else None)))"
    by (elim exE conjE)
  obtain r2 d dN dErr where d: "Reader_read rd r1 (Pad (replicate (unat sz) 0)) = (r2, d, dN, dErr)"
    by (metis prod_cases4)
  show ?thesis
    using assms h sz d unfolding rc by (auto split: if_splits)
qed

lemma reader_New_success:
  assumes "reader_New rd s = Return (Inr r0)"
  shows "\<exists>bufs n s'.
           internal_Read rd s [replicate 4 0, replicate 4 0, replicate 4 0] = ((bufs, n, None), s')
           \<and> bufs ! 0 = FourCCRIFF \<and> LittleEndian_Uint32 (bufs ! 1) = Return (size_r r0)
           \<and> 4 \<le> size_r r0
           \<and> r0 = \<lparr>fileType_r = bufs ! 2, size_r = size_r r0, bytesRead = 4, r_io = s'\<rparr>"
proof -
  obtain bufs n e s' where
    ir: "internal_Read rd s [replicate 4 0, replicate 4 0, replicate 4 0] = ((bufs, n, e), s')"
    by (cases "internal_Read rd s [replicate 4 0, replicate 4 0, replicate 4 0]") auto
  show ?thesis
  proof (cases e)
    case None
    from reader_New_read_ok[OF ir[unfolded None]] assms show ?thesis
      using ir None by (auto split: if_splits)
  next
    case (Some err)
    then show ?thesis
      using reader_New_read_error[OF ir[unfolded Some]] assms by simp
  qed
qed

lemma replicate_num: "replicate (numeral k) x = x # replicate (pred_numeral k) x"
  by (simp add: numeral_eq_Suc)

lemmas eval_defs =
  reader_New_def internal_Read_def bytes_Reader_Read_def copy_into_def wrap64_def
  FourCCRIFF_def FileTypeWavefile_def FourCCFormat_def FourCCData_def ReadChunk_def
  Reader_read_def LengthChunkHeader_def PaddedLength_def go_rem_def wordLength_def Pad_def
  Must4Byte_def zero_Chunk_def errCorruptedReadOutOfBounds_def errCorruptedTooShort_def
  Let_def replicate_num

lemma ReadToEnd_loop_ok:
  "ReadChunk rd r zero_Chunk = Return (r', ch, n, None) \<Longrightarrow>
   ReadToEnd_loop rd r chunks = ReadToEnd_loop rd r' (chunks @ [ch])"
  by (subst ReadToEnd_loop.simps) simp

lemma ReadToEnd_loop_EOF:
  "ReadChunk rd r zero_Chunk = Return (r', ch, n, Some e) \<Longrightarrow> errors_Is e EOF \<Longrightarrow>
   ReadToEnd_loop rd r chunks = Some (Return (r', chunks, None))"
  by (subst ReadToEnd_loop.simps) simp

lemma ReadToEnd_loop_error:
  "ReadChunk rd r zero_Chunk = Return (r', ch, n, Some e) \<Longrightarrow> \<not> errors_Is e EOF \<Longrightarrow>
   ReadToEnd_loop rd r chunks = Some (Return (r', chunks, Some e))"
  by (subst ReadToEnd_loop.simps) simp

lemma Pad_replicate: "Pad (replicate k 0) = replicate (k + k mod 2) 0"
proof (cases "k mod 2 = 0")
  case True
  then have "int k mod 2 = 0" by presburger
  then show ?thesis using True by (simp add: Pad_def wordLength_def go_rem_nonneg)
next
  case False
  then have "k mod 2 = 1" "int k mod 2 = 1" by presburger+
  then show ?thesis
    by (simp add: Pad_def wordLength_def go_rem_nonneg replicate_append_same[symmetric]
             del: replicate_append_same)
qed

lemma Reader_read_full:
  assumes "io_Reader_ok rd" "Reader_read rd r b = (r', b', n, None)" "length b \<le> n"
  shows "rd (r_io r) (length b) = ((b', None), r_io r') \<and> n = length b \<and> length b' = length b"
proof -
  obtain bs err s' where t: "rd (r_io r) (length b) = ((bs, err), s')"
    by (cases "rd (r_io r) (length b)") auto
  have "length bs \<le> length b"
    using assms(1) t unfolding io_Reader_ok_def by (metis fst_conv)
  then show ?thesis
    using assms(2,3) t
    by (auto simp: Reader_read_def Let_def copy_into_def split: if_splits)
qed

lemma PaddedLength_uint:
  "PaddedLength (uint (sz :: 32 word)) = int (unat sz + unat sz mod 2)"
proof -
  have "uint sz < 2 ^ 32"
    using uint_lt2p[of sz] by simp
  then have "uint sz < 2 ^ 63 - 1"
    by simp
  then show ?thesis
    by (simp add: PaddedLength_nonneg zmod_int)
qed

lemma ReadChunk_success_bytes:
  assumes ok: "io_Reader_ok rd" and rc: "ReadChunk rd r chunk = Return (r', ch, n, None)"
  shows "\<exists>hb s1 sz db.
           rd (r_io r) 8 = ((hb, None), s1) \<and> length hb = 8
           \<and> LittleEndian_Uint32 (drop 4 hb) = Return sz
           \<and> rd s1 (unat sz + unat sz mod 2) = ((db, None), r_io r')
           \<and> length db = unat sz + unat sz mod 2
           \<and> Identifier ch = take 4 hb \<and> Data ch = take (unat sz) db
           \<and> length (Data ch) = unat sz
           \<and> int n = 8 + PaddedLength (uint sz)"
proof -
  from ReadChunk_success[OF rc] obtain r1 h hN sz d dN where
    h: "Reader_read rd r (replicate 8 0) = (r1, h, hN, None)" and hN: "8 \<le> hN" and
    sz: "LittleEndian_Uint32 (drop 4 h) = Return sz" and
    d: "Reader_read rd r1 (Pad (replicate (unat sz) 0)) = (r', d, dN, None)" and
    dN: "unat sz + unat sz mod 2 \<le> dN" and
    ch: "ch = \<lparr>Identifier = take 4 h, Data = take (unat sz) d\<rparr>" and n: "n = hN + dN"
    by (elim exE conjE)
  have hf: "rd (r_io r) 8 = ((h, None), r_io r1) \<and> hN = 8 \<and> length h = 8"
    using Reader_read_full[OF ok h] hN by simp
  have df: "rd (r_io r1) (unat sz + unat sz mod 2) = ((d, None), r_io r') \<and>
            dN = unat sz + unat sz mod 2 \<and> length d = unat sz + unat sz mod 2"
    using Reader_read_full[OF ok d] dN by (simp add: Pad_replicate)
  show ?thesis
    apply (rule exI[of _ h], rule exI[of _ "r_io r1"], rule exI[of _ sz], rule exI[of _ d])
    using hf df sz ch n by (simp add: PaddedLength_uint)
qed

lemma RIFFReader_New:
  "reader_New bytes_Reader_Read RIFFReader =
     Return (Inr \<lparr>fileType_r = FileTypeWavefile, size_r = 42, bytesRead = 4,
                  r_io = FourCCFormat @ [5, 0, 0, 0] @ [1, 2, 3, 4, 5, 0]
                         @ FourCCData @ [8, 0, 0, 0] @ [1, 2, 3, 4, 5, 6, 7, 8]\<rparr>)"
  by (simp add: RIFFReader_def eval_defs)

lemma RIFFReader_chunk1:
  "ReadChunk bytes_Reader_Read
     \<lparr>fileType_r = FileTypeWavefile, size_r = 42, bytesRead = 4,
      r_io = FourCCFormat @ [5, 0, 0, 0] @ [1, 2, 3, 4, 5, 0]
             @ FourCCData @ [8, 0, 0, 0] @ [1, 2, 3, 4, 5, 6, 7, 8]\<rparr> zero_Chunk =
   Return (\<lparr>fileType_r = FileTypeWavefile, size_r = 42, bytesRead = 18,
            r_io = FourCCData @ [8, 0, 0, 0] @ [1, 2, 3, 4, 5, 6, 7, 8]\<rparr>,
           \<lparr>Identifier = FourCCFormat, Data = [1, 2, 3, 4, 5]\<rparr>, 14, None)"
  by (simp add: eval_defs)

lemma RIFFReader_chunk2:
  "ReadChunk bytes_Reader_Read
     \<lparr>fileType_r = FileTypeWavefile, size_r = 42, bytesRead = 18,
      r_io = FourCCData @ [8, 0, 0, 0] @ [1, 2, 3, 4, 5, 6, 7, 8]\<rparr> zero_Chunk =
   Return (\<lparr>fileType_r = FileTypeWavefile, size_r = 42, bytesRead = 34, r_io = []\<rparr>,
           \<lparr>Identifier = FourCCData, Data = [1, 2, 3, 4, 5, 6, 7, 8]\<rparr>, 16, None)"
  by (simp add: eval_defs)

lemma RIFFReader_end:
  "ReadChunk bytes_Reader_Read
     \<lparr>fileType_r = FileTypeWavefile, size_r = 42, bytesRead = 34, r_io = []\<rparr> zero_Chunk =
   Return (\<lparr>fileType_r = FileTypeWavefile, size_r = 42, bytesRead = 34, r_io = []\<rparr>,
           zero_Chunk, 0, Some EOF)"
  by (simp add: eval_defs)

lemma RIFFReader_ReadToEnd:
  "ReadToEnd bytes_Reader_Read
     \<lparr>fileType_r = FileTypeWavefile, size_r = 42, bytesRead = 4,
      r_io = FourCCFormat @ [5, 0, 0, 0] @ [1, 2, 3, 4, 5, 0]
             @ FourCCData @ [8, 0, 0, 0] @ [1, 2, 3, 4, 5, 6, 7, 8]\<rparr> =
   Some (Return (\<lparr>fileType_r = FileTypeWavefile, size_r = 42, bytesRead = 34, r_io = []\<rparr>,
                 [\<lparr>Identifier = FourCCFormat, Data = [1, 2, 3, 4, 5]\<rparr>,
                  \<lparr>Identifier = FourCCData, Data = [1, 2, 3, 4, 5, 6, 7, 8]\<rparr>], None))"
  unfolding ReadToEnd_def
  apply (subst ReadToEnd_loop_ok[OF RIFFReader_chunk1])
  apply (subst ReadToEnd_loop_ok[OF RIFFReader_chunk2])
  apply (subst ReadToEnd_loop_EOF[OF RIFFReader_end])
   apply simp_all
  done

lemma bytes_Reader_ok: "io_Reader_ok bytes_Reader_Read"
  by (simp add: io_Reader_ok_def bytes_Reader_Read_def)

subsection \<open>C5\<close>

text \<open>
  C5: a reader that \<open>New\<close> returns has its counter at 4. In \<open>read\<close>, when the
  transport returns no error and the counter, after \<open>n\<close> was added, is above
  \<open>PaddedLength\<close> of the declared size, the error is
  \<open>errCorruptedReadOutOfBounds\<close>, which is \<open>ErrCorrupted\<close>; \<open>ReadChunk\<close> returns
  the error of its header read and the error of its payload read as they are. So a call
  of \<open>ReadChunk\<close> that returns no error leaves the counter at most \<open>PaddedLength\<close> of
  the declared size.
\<close>

theorem ReadChunk_consumption_bound:
  "(\<forall>r0. reader_New rd s = Return (Inr r0) \<longrightarrow> bytesRead r0 = 4)
   \<and> (\<forall>bs s'. rd (r_io r) (length b) = ((bs, None), s')
         \<and> wrap64 (bytesRead r + int (length bs)) > PaddedLength (uint (size_r r)) \<longrightarrow>
         (\<exists>r' b'. Reader_read rd r b = (r', b', length bs, Some errCorruptedReadOutOfBounds)
            \<and> bytesRead r' = wrap64 (bytesRead r + int (length bs))))
   \<and> errors_Is errCorruptedReadOutOfBounds ErrCorrupted
   \<and> (\<forall>r1 h n e. Reader_read rd r (replicate 8 0) = (r1, h, n, Some e) \<longrightarrow>
         ReadChunk rd r chunk = Return (r1, chunk, n, Some e))
   \<and> (\<forall>r1 h n sz r2 d m e.
         Reader_read rd r (replicate 8 0) = (r1, h, n, None) \<and> 8 \<le> n
         \<and> LittleEndian_Uint32 (drop 4 h) = Return sz
         \<and> Reader_read rd r1 (Pad (replicate (unat sz) 0)) = (r2, d, m, Some e) \<longrightarrow>
         (\<exists>ch. ReadChunk rd r chunk = Return (r2, ch, n + m, Some e)))
   \<and> (\<forall>r' ch n. ReadChunk rd r chunk = Return (r', ch, n, None) \<longrightarrow>
         bytesRead r' \<le> PaddedLength (uint (size_r r')) \<and> size_r r' = size_r r)"
proof (intro conjI allI impI)
  fix r0 assume "reader_New rd s = Return (Inr r0)"
  from reader_New_success[OF this] obtain bufs s' where
    "r0 = \<lparr>fileType_r = bufs ! 2, size_r = size_r r0, bytesRead = 4, r_io = s'\<rparr>"
    by blast
  then show "bytesRead r0 = 4"
    by (metis Reader.select_convs(3))
next
  fix bs s'
  assume "rd (r_io r) (length b) = ((bs, None), s')
         \<and> wrap64 (bytesRead r + int (length bs)) > PaddedLength (uint (size_r r))"
  then show "\<exists>r' b'. Reader_read rd r b = (r', b', length bs, Some errCorruptedReadOutOfBounds)
            \<and> bytesRead r' = wrap64 (bytesRead r + int (length bs))"
    using Reader_read_oob[of rd r b bs s'] by simp
next
  show "errors_Is errCorruptedReadOutOfBounds ErrCorrupted"
    by (rule errCorrupted_Is)
next
  fix r1 h n e assume "Reader_read rd r (replicate 8 0) = (r1, h, n, Some e)"
  then show "ReadChunk rd r chunk = Return (r1, chunk, n, Some e)"
    by (rule ReadChunk_header_error)
next
  fix r1 h n sz r2 d m e
  assume "Reader_read rd r (replicate 8 0) = (r1, h, n, None) \<and> 8 \<le> n
         \<and> LittleEndian_Uint32 (drop 4 h) = Return sz
         \<and> Reader_read rd r1 (Pad (replicate (unat sz) 0)) = (r2, d, m, Some e)"
  then show "\<exists>ch. ReadChunk rd r chunk = Return (r2, ch, n + m, Some e)"
    using ReadChunk_data_error[of rd r r1 h n sz r2 d m e chunk] by blast
next
  fix r' ch n assume a: "ReadChunk rd r chunk = Return (r', ch, n, None)"
  from ReadChunk_success[OF a] obtain r1 h hN sz d dN where
    h: "Reader_read rd r (replicate 8 0) = (r1, h, hN, None)" and "8 \<le> hN" and
    "LittleEndian_Uint32 (drop 4 h) = Return sz" and
    d: "Reader_read rd r1 (Pad (replicate (unat sz) 0)) = (r', d, dN, None)" and
    "unat sz + unat sz mod 2 \<le> dN" and
    "ch = \<lparr>Identifier = take 4 h, Data = take (unat sz) d\<rparr>" and "n = hN + dN"
    by (elim exE conjE)
  show "bytesRead r' \<le> PaddedLength (uint (size_r r'))"
    using Reader_read_None[OF d] by auto
  show "size_r r' = size_r r"
    using Reader_read_None[OF d] Reader_read_None[OF h] by auto
qed

lemma over_bound_read:
  "Reader_read bytes_Reader_Read
     \<lparr>fileType_r = FileTypeWavefile, size_r = 4, bytesRead = 4,
      r_io = FourCCData @ [0, 0, 0, 0]\<rparr> (replicate 8 0) =
   (\<lparr>fileType_r = FileTypeWavefile, size_r = 4, bytesRead = 12, r_io = []\<rparr>,
    FourCCData @ [0, 0, 0, 0], 8, Some errCorruptedReadOutOfBounds)"
  by (simp add: eval_defs)

theorem ReadChunk_consumption_bound_witness:
  "reader_New bytes_Reader_Read RIFFReader =
     Return (Inr \<lparr>fileType_r = FileTypeWavefile, size_r = 42, bytesRead = 4,
                  r_io = FourCCFormat @ [5, 0, 0, 0] @ [1, 2, 3, 4, 5, 0]
                         @ FourCCData @ [8, 0, 0, 0] @ [1, 2, 3, 4, 5, 6, 7, 8]\<rparr>)
   \<and> bytesRead \<lparr>fileType_r = FileTypeWavefile, size_r = 42, bytesRead = 4,
                  r_io = FourCCFormat @ [5, 0, 0, 0] @ [1, 2, 3, 4, 5, 0]
                         @ FourCCData @ [8, 0, 0, 0] @ [1, 2, 3, 4, 5, 6, 7, 8]\<rparr> = 4
   \<and> ReadChunk bytes_Reader_Read
        \<lparr>fileType_r = FileTypeWavefile, size_r = 42, bytesRead = 4,
         r_io = FourCCFormat @ [5, 0, 0, 0] @ [1, 2, 3, 4, 5, 0]
                @ FourCCData @ [8, 0, 0, 0] @ [1, 2, 3, 4, 5, 6, 7, 8]\<rparr> zero_Chunk =
       Return (\<lparr>fileType_r = FileTypeWavefile, size_r = 42, bytesRead = 18,
                r_io = FourCCData @ [8, 0, 0, 0] @ [1, 2, 3, 4, 5, 6, 7, 8]\<rparr>,
               \<lparr>Identifier = FourCCFormat, Data = [1, 2, 3, 4, 5]\<rparr>, 14, None)
   \<and> bytesRead \<lparr>fileType_r = FileTypeWavefile, size_r = 42, bytesRead = 18,
                  r_io = FourCCData @ [8, 0, 0, 0] @ [1, 2, 3, 4, 5, 6, 7, 8]\<rparr>
       \<le> PaddedLength (uint (42 :: 32 word))
   \<and> bytes_Reader_Read (FourCCData @ [0, 0, 0, 0]) 8 = ((FourCCData @ [0, 0, 0, 0], None), [])
   \<and> wrap64 (4 + int (length (FourCCData @ [0, 0, 0, 0]))) > PaddedLength (uint (4 :: 32 word))
   \<and> ReadChunk bytes_Reader_Read
        \<lparr>fileType_r = FileTypeWavefile, size_r = 4, bytesRead = 4,
         r_io = FourCCData @ [0, 0, 0, 0]\<rparr> zero_Chunk =
       Return (\<lparr>fileType_r = FileTypeWavefile, size_r = 4, bytesRead = 12, r_io = []\<rparr>,
               zero_Chunk, 8, Some errCorruptedReadOutOfBounds)"
proof -
  have a: "bytes_Reader_Read (FourCCData @ [0, 0, 0, 0]) 8 = ((FourCCData @ [0, 0, 0, 0], None), [])"
    by (simp add: bytes_Reader_Read_def FourCCData_def)
  have b: "wrap64 (4 + int (length (FourCCData @ [0, 0, 0, 0]))) > PaddedLength (uint (4 :: 32 word))"
    by (simp add: FourCCData_def wrap64_def PaddedLength_def go_rem_def wordLength_def)
  have c: "ReadChunk bytes_Reader_Read
        \<lparr>fileType_r = FileTypeWavefile, size_r = 4, bytesRead = 4,
         r_io = FourCCData @ [0, 0, 0, 0]\<rparr> zero_Chunk =
       Return (\<lparr>fileType_r = FileTypeWavefile, size_r = 4, bytesRead = 12, r_io = []\<rparr>,
               zero_Chunk, 8, Some errCorruptedReadOutOfBounds)"
    using ReadChunk_consumption_bound
      [of bytes_Reader_Read "[]"
          "\<lparr>fileType_r = FileTypeWavefile, size_r = 4, bytesRead = 4,
            r_io = FourCCData @ [0, 0, 0, 0]\<rparr>" "[]" zero_Chunk]
      over_bound_read
    by simp
  show ?thesis
    using ReadChunk_consumption_bound
      [of bytes_Reader_Read RIFFReader
        "\<lparr>fileType_r = FileTypeWavefile, size_r = 42, bytesRead = 4,
          r_io = FourCCFormat @ [5, 0, 0, 0] @ [1, 2, 3, 4, 5, 0]
                 @ FourCCData @ [8, 0, 0, 0] @ [1, 2, 3, 4, 5, 6, 7, 8]\<rparr>"
        "[]" zero_Chunk]
      RIFFReader_New RIFFReader_chunk1 a b c
    by simp
qed

subsection \<open>C4\<close>

text \<open>
  C4: on a transport that keeps the contract of \<open>io.Reader\<close>, a call of \<open>ReadChunk\<close>
  that returns no error has read 8 header bytes, whose last four declare the size
  \<open>sz\<close>, and then \<open>sz\<close> bytes rounded up to even; the chunk holds the first four header
  bytes as identifier and exactly the first \<open>sz\<close> payload bytes as data, so the pad byte
  is consumed and not exposed; the count is 8 plus \<open>PaddedLength sz\<close>. On the stream of
  the example the two calls return 14 and 16, together \<open>(8+6) + (8+8) = 30\<close>, with the data
  \<open>[1..5]\<close> and \<open>[1..8]\<close>, and \<open>ReadToEnd\<close> returns these two chunks.
\<close>

theorem ReadChunk_returns_unpadded:
  "(io_Reader_ok rd \<and> ReadChunk rd r chunk = Return (r', ch, n, None) \<longrightarrow>
      (\<exists>hb s1 sz db.
           rd (r_io r) 8 = ((hb, None), s1) \<and> length hb = 8
           \<and> LittleEndian_Uint32 (drop 4 hb) = Return sz
           \<and> rd s1 (unat sz + unat sz mod 2) = ((db, None), r_io r')
           \<and> length db = unat sz + unat sz mod 2
           \<and> Identifier ch = take 4 hb \<and> Data ch = take (unat sz) db
           \<and> length (Data ch) = unat sz
           \<and> int n = 8 + PaddedLength (uint sz)))
   \<and> reader_New bytes_Reader_Read RIFFReader =
       Return (Inr \<lparr>fileType_r = FileTypeWavefile, size_r = 42, bytesRead = 4,
                    r_io = FourCCFormat @ [5, 0, 0, 0] @ [1, 2, 3, 4, 5, 0]
                           @ FourCCData @ [8, 0, 0, 0] @ [1, 2, 3, 4, 5, 6, 7, 8]\<rparr>)
   \<and> ReadChunk bytes_Reader_Read
        \<lparr>fileType_r = FileTypeWavefile, size_r = 42, bytesRead = 4,
         r_io = FourCCFormat @ [5, 0, 0, 0] @ [1, 2, 3, 4, 5, 0]
                @ FourCCData @ [8, 0, 0, 0] @ [1, 2, 3, 4, 5, 6, 7, 8]\<rparr> zero_Chunk =
       Return (\<lparr>fileType_r = FileTypeWavefile, size_r = 42, bytesRead = 18,
                r_io = FourCCData @ [8, 0, 0, 0] @ [1, 2, 3, 4, 5, 6, 7, 8]\<rparr>,
               \<lparr>Identifier = FourCCFormat, Data = [1, 2, 3, 4, 5]\<rparr>, 14, None)
   \<and> ReadChunk bytes_Reader_Read
        \<lparr>fileType_r = FileTypeWavefile, size_r = 42, bytesRead = 18,
         r_io = FourCCData @ [8, 0, 0, 0] @ [1, 2, 3, 4, 5, 6, 7, 8]\<rparr> zero_Chunk =
       Return (\<lparr>fileType_r = FileTypeWavefile, size_r = 42, bytesRead = 34, r_io = []\<rparr>,
               \<lparr>Identifier = FourCCData, Data = [1, 2, 3, 4, 5, 6, 7, 8]\<rparr>, 16, None)
   \<and> (14 :: nat) + 16 = (8 + 6) + (8 + 8) \<and> (8 + 6) + (8 + 8) = (30 :: nat)
   \<and> ReadToEnd bytes_Reader_Read
        \<lparr>fileType_r = FileTypeWavefile, size_r = 42, bytesRead = 4,
         r_io = FourCCFormat @ [5, 0, 0, 0] @ [1, 2, 3, 4, 5, 0]
                @ FourCCData @ [8, 0, 0, 0] @ [1, 2, 3, 4, 5, 6, 7, 8]\<rparr> =
       Some (Return (\<lparr>fileType_r = FileTypeWavefile, size_r = 42, bytesRead = 34, r_io = []\<rparr>,
                     [\<lparr>Identifier = FourCCFormat, Data = [1, 2, 3, 4, 5]\<rparr>,
                      \<lparr>Identifier = FourCCData, Data = [1, 2, 3, 4, 5, 6, 7, 8]\<rparr>], None))"
  using ReadChunk_success_bytes[of rd r chunk r' ch n]
  by (simp only: RIFFReader_New RIFFReader_chunk1 RIFFReader_chunk2 RIFFReader_ReadToEnd) simp

theorem ReadChunk_returns_unpadded_witness:
  "io_Reader_ok bytes_Reader_Read
   \<and> ReadChunk bytes_Reader_Read
        \<lparr>fileType_r = FileTypeWavefile, size_r = 42, bytesRead = 4,
         r_io = FourCCFormat @ [5, 0, 0, 0] @ [1, 2, 3, 4, 5, 0]
                @ FourCCData @ [8, 0, 0, 0] @ [1, 2, 3, 4, 5, 6, 7, 8]\<rparr> zero_Chunk =
       Return (\<lparr>fileType_r = FileTypeWavefile, size_r = 42, bytesRead = 18,
                r_io = FourCCData @ [8, 0, 0, 0] @ [1, 2, 3, 4, 5, 6, 7, 8]\<rparr>,
               \<lparr>Identifier = FourCCFormat, Data = [1, 2, 3, 4, 5]\<rparr>, 14, None)
   \<and> (\<exists>sz. LittleEndian_Uint32 [5, 0, 0, 0] = Return sz
         \<and> length (Data \<lparr>Identifier = FourCCFormat, Data = [1, 2, 3, 4, 5]\<rparr>) = unat sz
         \<and> int 14 = 8 + PaddedLength (uint sz))"
proof -
  let ?r = "\<lparr>fileType_r = FileTypeWavefile, size_r = 42, bytesRead = 4,
         r_io = FourCCFormat @ [5, 0, 0, 0] @ [1, 2, 3, 4, 5, 0]
                @ FourCCData @ [8, 0, 0, 0] @ [1, 2, 3, 4, 5, 6, 7, 8]\<rparr>"
  let ?r' = "\<lparr>fileType_r = FileTypeWavefile, size_r = 42, bytesRead = 18,
                r_io = FourCCData @ [8, 0, 0, 0] @ [1, 2, 3, 4, 5, 6, 7, 8]\<rparr>"
  let ?ch = "\<lparr>Identifier = FourCCFormat, Data = [1, 2, 3, 4, 5]\<rparr>"
  have ok: "io_Reader_ok bytes_Reader_Read"
    by (rule bytes_Reader_ok)
  have rc: "ReadChunk bytes_Reader_Read ?r zero_Chunk = Return (?r', ?ch, 14, None)"
    by (rule RIFFReader_chunk1)
  have "\<exists>hb s1 sz db.
           bytes_Reader_Read (r_io ?r) 8 = ((hb, None), s1) \<and> length hb = 8
           \<and> LittleEndian_Uint32 (drop 4 hb) = Return sz
           \<and> bytes_Reader_Read s1 (unat sz + unat sz mod 2) = ((db, None), r_io ?r')
           \<and> length db = unat sz + unat sz mod 2
           \<and> Identifier ?ch = take 4 hb \<and> Data ?ch = take (unat sz) db
           \<and> length (Data ?ch) = unat sz
           \<and> int 14 = 8 + PaddedLength (uint sz)"
    using ReadChunk_returns_unpadded[of bytes_Reader_Read ?r zero_Chunk ?r' ?ch 14] ok rc
    by blast
  then have "\<exists>sz. LittleEndian_Uint32 [5, 0, 0, 0] = Return sz
         \<and> length (Data ?ch) = unat sz \<and> int 14 = 8 + PaddedLength (uint sz)"
    by (auto simp: bytes_Reader_Read_def FourCCFormat_def)
  then show ?thesis
    using ok rc by blast
qed


lemma reader_New_bytes_full:
  assumes "12 \<le> length bs"
  shows "\<exists>sz. LittleEndian_Uint32 (take 4 (drop 4 bs)) = Return sz \<and>
          reader_New bytes_Reader_Read bs =
           (if take 4 bs \<noteq> FourCCRIFF then
              Return (Inl (Errorf_w ''data does not begin with RIFF header'' ErrCorrupted))
            else if sz < 4 then Return (Inl (Errorf_w ''impossibly small file size'' ErrCorrupted))
            else Return (Inr \<lparr>fileType_r = take 4 (drop 8 bs), size_r = sz, bytesRead = 4,
                              r_io = drop 12 bs\<rparr>))"
proof -
  let ?bufs = "[take 4 bs, take 4 (drop 4 bs), take 4 (drop 8 bs)]"
  from reader_New_read_ok[OF bytes_Reader_header_full[OF assms]] obtain sz where
    a: "LittleEndian_Uint32 (?bufs ! 1) = Return sz" and
    b: "reader_New bytes_Reader_Read bs =
           (if ?bufs ! 0 \<noteq> FourCCRIFF then
              Return (Inl (Errorf_w ''data does not begin with RIFF header'' ErrCorrupted))
            else if sz < 4 then Return (Inl (Errorf_w ''impossibly small file size'' ErrCorrupted))
            else Return (Inr \<lparr>fileType_r = ?bufs ! 2, size_r = sz, bytesRead = 4,
                              r_io = drop 12 bs\<rparr>))"
    by (elim exE conjE)
  have "LittleEndian_Uint32 (take 4 (drop 4 bs)) = Return sz"
    using a by simp
  moreover have "reader_New bytes_Reader_Read bs =
           (if take 4 bs \<noteq> FourCCRIFF then
              Return (Inl (Errorf_w ''data does not begin with RIFF header'' ErrCorrupted))
            else if sz < 4 then Return (Inl (Errorf_w ''impossibly small file size'' ErrCorrupted))
            else Return (Inr \<lparr>fileType_r = take 4 (drop 8 bs), size_r = sz, bytesRead = 4,
                              r_io = drop 12 bs\<rparr>))"
    using b by simp
  ultimately show ?thesis
    by blast
qed

subsection \<open>C9\<close>




lemma truncated_New:
  "reader_New bytes_Reader_Read
     (FourCCRIFF @ [16, 0, 0, 0] @ FileTypeWavefile @ FourCCData @ [4, 0, 0, 0]) =
     Return (Inr \<lparr>fileType_r = FileTypeWavefile, size_r = 16, bytesRead = 4,
                  r_io = FourCCData @ [4, 0, 0, 0]\<rparr>)"
  by (simp add: eval_defs)

lemma truncated_header_read:
  "Reader_read bytes_Reader_Read
     \<lparr>fileType_r = FileTypeWavefile, size_r = 16, bytesRead = 4,
      r_io = FourCCData @ [4, 0, 0, 0]\<rparr> (replicate 8 0) =
   (\<lparr>fileType_r = FileTypeWavefile, size_r = 16, bytesRead = 12, r_io = []\<rparr>,
    FourCCData @ [4, 0, 0, 0], 8, None)"
  by (simp add: eval_defs)

lemma truncated_ReadChunk:
  "ReadChunk bytes_Reader_Read
     \<lparr>fileType_r = FileTypeWavefile, size_r = 16, bytesRead = 4,
      r_io = FourCCData @ [4, 0, 0, 0]\<rparr> zero_Chunk =
   Return (\<lparr>fileType_r = FileTypeWavefile, size_r = 16, bytesRead = 12, r_io = []\<rparr>,
           \<lparr>Identifier = FourCCData, Data = [0, 0, 0, 0]\<rparr>, 8, Some EOF)"
  by (simp add: eval_defs)

subsection \<open>C10\<close>

text \<open>
  C10 as stated covers every call that got the eight header bytes and then returns an
  error, the consumption bound among the errors. When the bound is exceeded by the header
  itself, \<open>ReadChunk\<close> returns before it touches the chunk: with a declared size of 4 and
  eight more bytes in the stream, the header is read in full, the error is
  \<open>errCorruptedReadOutOfBounds\<close>, and the chunk behind the pointer is what it was.
\<close>

theorem ReadChunk_header_bound_counterexample:
  "reader_New bytes_Reader_Read
     (FourCCRIFF @ [4, 0, 0, 0] @ FileTypeWavefile @ FourCCData @ [0, 0, 0, 0]) =
     Return (Inr \<lparr>fileType_r = FileTypeWavefile, size_r = 4, bytesRead = 4,
                  r_io = FourCCData @ [0, 0, 0, 0]\<rparr>)
   \<and> bytes_Reader_Read (FourCCData @ [0, 0, 0, 0]) 8 = ((FourCCData @ [0, 0, 0, 0], None), [])
   \<and> ReadChunk bytes_Reader_Read
        \<lparr>fileType_r = FileTypeWavefile, size_r = 4, bytesRead = 4,
         r_io = FourCCData @ [0, 0, 0, 0]\<rparr>
        \<lparr>Identifier = [0, 0, 0, 0], Data = [7]\<rparr> =
      Return (\<lparr>fileType_r = FileTypeWavefile, size_r = 4, bytesRead = 12, r_io = []\<rparr>,
              \<lparr>Identifier = [0, 0, 0, 0], Data = [7]\<rparr>, 8, Some errCorruptedReadOutOfBounds)
   \<and> Identifier \<lparr>Identifier = [0, 0, 0, 0], Data = [7 :: byte]\<rparr> \<noteq> FourCCData
   \<and> length (Data \<lparr>Identifier = [0, 0, 0, 0], Data = [7 :: byte]\<rparr>) \<noteq> 0"
  by (simp add: eval_defs)

text \<open>
  C10, amended: for every call of \<open>ReadChunk\<close> whose header read returns the eight header
  bytes with no error (no transport error and the consumption bound not exceeded by the
  header) and which then returns an error (short payload, consumption bound exceeded by
  the payload, or transport error on the payload): the identifier of the chunk is the
  first four header bytes and its data has exactly the declared size, the bytes the
  transport delivered followed by zeros.
\<close>

theorem ReadChunk_populates_chunk:
  assumes "Reader_read rd r (replicate 8 0) = (r1, header, hN, None)" and "8 \<le> hN"
    and "ReadChunk rd r chunk = Return (r', ch, n, Some e)"
  shows "\<exists>sz bs err s2.
           LittleEndian_Uint32 (drop 4 header) = Return sz
           \<and> rd (r_io r1) (unat sz + unat sz mod 2) = ((bs, err), s2)
           \<and> Identifier ch = take 4 header
           \<and> Data ch = take (unat sz)
                (take (unat sz + unat sz mod 2) bs
                 @ replicate (unat sz + unat sz mod 2 - length bs) 0)
           \<and> length (Data ch) = unat sz"
proof -
  from ReadChunk_unfold[OF assms(1), of chunk] obtain sz where
    sz: "LittleEndian_Uint32 (drop 4 header) = Return sz" and
    rc: "ReadChunk rd r chunk =
       (if None \<noteq> (None :: error option) then Return (r1, chunk, hN, None)
        else if hN < 8 then Return (r1, chunk, hN, Some errCorruptedTooShort)
        else (case Reader_read rd r1 (Pad (replicate (unat sz) 0)) of
                (r2, data', dN, dErr) \<Rightarrow>
                  Return (r2, \<lparr>Identifier = take 4 header, Data = take (unat sz) data'\<rparr>, hN + dN,
                          if dErr \<noteq> None then dErr
                          else if dN < unat sz + unat sz mod 2 then Some errCorruptedTooShort
                          else None)))"
    by (elim exE conjE)
  obtain bs err s2 where t: "rd (r_io r1) (unat sz + unat sz mod 2) = ((bs, err), s2)"
    by (cases "rd (r_io r1) (unat sz + unat sz mod 2)") auto
  obtain r2 d dN dErr where d: "Reader_read rd r1 (Pad (replicate (unat sz) 0)) = (r2, d, dN, dErr)"
    by (metis prod_cases4)
  have dd: "d = take (unat sz + unat sz mod 2) bs @ replicate (unat sz + unat sz mod 2 - length bs) 0"
    using d t by (auto simp: Reader_read_def Pad_replicate copy_into_def Let_def split: if_splits)
  have ch: "ch = \<lparr>Identifier = take 4 header, Data = take (unat sz) d\<rparr>"
    using assms(2,3) d unfolding rc by (auto split: if_splits)
  have "length (Data ch) = unat sz"
    unfolding ch dd by auto
  then show ?thesis
    using sz t ch dd by auto
qed

theorem ReadChunk_populates_chunk_witness:
  "Reader_read bytes_Reader_Read
     \<lparr>fileType_r = FileTypeWavefile, size_r = 16, bytesRead = 4,
      r_io = FourCCData @ [4, 0, 0, 0]\<rparr> (replicate 8 0) =
   (\<lparr>fileType_r = FileTypeWavefile, size_r = 16, bytesRead = 12, r_io = []\<rparr>,
    FourCCData @ [4, 0, 0, 0], 8, None)
   \<and> (8 :: nat) \<le> 8
   \<and> ReadChunk bytes_Reader_Read
        \<lparr>fileType_r = FileTypeWavefile, size_r = 16, bytesRead = 4,
         r_io = FourCCData @ [4, 0, 0, 0]\<rparr> zero_Chunk =
      Return (\<lparr>fileType_r = FileTypeWavefile, size_r = 16, bytesRead = 12, r_io = []\<rparr>,
              \<lparr>Identifier = FourCCData, Data = [0, 0, 0, 0]\<rparr>, 8, Some EOF)
   \<and> (\<exists>sz. LittleEndian_Uint32 (drop 4 (FourCCData @ [4, 0, 0, 0])) = Return sz
         \<and> Identifier \<lparr>Identifier = FourCCData, Data = [0, 0, 0, 0]\<rparr>
             = take 4 (FourCCData @ [4, 0, 0, 0])
         \<and> length (Data \<lparr>Identifier = FourCCData, Data = [0, 0, 0, 0 :: byte]\<rparr>) = unat sz)"
  using ReadChunk_populates_chunk[OF truncated_header_read _ truncated_ReadChunk]
    truncated_header_read truncated_ReadChunk
  by auto

subsection \<open>C2\<close>

text \<open>
  C2 says that a short read of the header or of the payload is always \<open>ErrCorrupted\<close>,
  and that \<open>io.EOF\<close> is returned only at a chunk boundary. The payload read passes the
  error of the transport on as it is. On the stream that ends right after the header of a
  chunk \<open>"data"\<close> of declared size 4, \<open>ReadChunk\<close> has consumed the eight header bytes,
  gets no payload byte, and returns \<open>io.EOF\<close>, which is not \<open>ErrCorrupted\<close>;
  \<open>ReadToEnd\<close> then returns no chunk and no error.
\<close>

theorem ReadChunk_payload_EOF_not_Corrupted:
  "reader_New bytes_Reader_Read
     (FourCCRIFF @ [16, 0, 0, 0] @ FileTypeWavefile @ FourCCData @ [4, 0, 0, 0]) =
     Return (Inr \<lparr>fileType_r = FileTypeWavefile, size_r = 16, bytesRead = 4,
                  r_io = FourCCData @ [4, 0, 0, 0]\<rparr>)
   \<and> ReadChunk bytes_Reader_Read
        \<lparr>fileType_r = FileTypeWavefile, size_r = 16, bytesRead = 4,
         r_io = FourCCData @ [4, 0, 0, 0]\<rparr> zero_Chunk =
      Return (\<lparr>fileType_r = FileTypeWavefile, size_r = 16, bytesRead = 12, r_io = []\<rparr>,
              \<lparr>Identifier = FourCCData, Data = [0, 0, 0, 0]\<rparr>, 8, Some EOF)
   \<and> \<not> errors_Is EOF ErrCorrupted
   \<and> ReadToEnd bytes_Reader_Read
        \<lparr>fileType_r = FileTypeWavefile, size_r = 16, bytesRead = 4,
         r_io = FourCCData @ [4, 0, 0, 0]\<rparr> =
      Some (Return (\<lparr>fileType_r = FileTypeWavefile, size_r = 16, bytesRead = 12, r_io = []\<rparr>,
                    [], None))"
proof -
  have "ReadToEnd bytes_Reader_Read
        \<lparr>fileType_r = FileTypeWavefile, size_r = 16, bytesRead = 4,
         r_io = FourCCData @ [4, 0, 0, 0]\<rparr> =
      Some (Return (\<lparr>fileType_r = FileTypeWavefile, size_r = 16, bytesRead = 12, r_io = []\<rparr>,
                    [], None))"
    unfolding ReadToEnd_def
    by (rule ReadToEnd_loop_EOF[OF truncated_ReadChunk]) simp
  then show ?thesis
    using truncated_New truncated_ReadChunk by simp
qed

text \<open>What holds of the claim: a read that is short without an error is \<open>ErrCorrupted\<close>.\<close>

lemma ReadChunk_short_header:
  assumes "rd (r_io r) 8 = ((bs, None), s')" "length bs < 8"
  shows "\<exists>r' e. ReadChunk rd r chunk = Return (r', chunk, length bs, Some e)
            \<and> errors_Is e ErrCorrupted"
proof -
  obtain r1 h hN hErr where h: "Reader_read rd r (replicate 8 0) = (r1, h, hN, hErr)"
    by (metis prod_cases4)
  have "hN = length bs" "hErr = None \<or> hErr = Some errCorruptedReadOutOfBounds"
    using h assms(1) by (auto simp: Reader_read_def Let_def split: if_splits)
  then show ?thesis
    using ReadChunk_unfold[OF h, of chunk] assms(2) errCorrupted_Is by auto
qed

lemma ReadChunk_short_payload:
  assumes "Reader_read rd r (replicate 8 0) = (r1, header, hN, None)" "8 \<le> hN"
    and "LittleEndian_Uint32 (drop 4 header) = Return sz"
    and "rd (r_io r1) (unat sz + unat sz mod 2) = ((bs, None), s2)"
    and "length bs < unat sz + unat sz mod 2"
  shows "\<exists>r' ch e. ReadChunk rd r chunk = Return (r', ch, hN + length bs, Some e)
            \<and> errors_Is e ErrCorrupted"
proof -
  obtain r2 d dN dErr where d: "Reader_read rd r1 (Pad (replicate (unat sz) 0)) = (r2, d, dN, dErr)"
    by (metis prod_cases4)
  have "dN = length bs" "dErr = None \<or> dErr = Some errCorruptedReadOutOfBounds"
    using d assms(4) by (auto simp: Reader_read_def Pad_replicate Let_def split: if_splits)
  then show ?thesis
    using ReadChunk_unfold[OF assms(1), of chunk] assms(2,3,5) d errCorrupted_Is by auto
qed

section \<open>The format chunk\<close>

lemma read_bytes_take:
  "k \<le> length b \<Longrightarrow> read_bytes k acc b = Return (acc @ take k b, drop k b)"
proof (induction k arbitrary: acc b)
  case 0
  then show ?case by simp
next
  case (Suc k)
  then obtain x xs where "b = x # xs"
    by (cases b) auto
  then show ?case
    using Suc by simp
qed

lemma LittleEndian_Uint16_total:
  "length b = 2 \<Longrightarrow> \<exists>v. LittleEndian_Uint16 b = Return v"
  by (cases b rule: LittleEndian_Uint16.cases) auto

lemma ReadLittleEndianUInt16_ok:
  assumes "2 \<le> length b"
  shows "\<exists>v. LittleEndian_Uint16 (take 2 b) = Return v
            \<and> ReadLittleEndianUInt16 b = Return (v, drop 2 b)"
proof -
  obtain v where "LittleEndian_Uint16 (take 2 b) = Return v"
    using LittleEndian_Uint16_total[of "take 2 b"] assms by auto
  then show ?thesis
    using assms by (simp add: ReadLittleEndianUInt16_def read_bytes_take)
qed

lemma ReadLittleEndianUInt32_ok:
  assumes "4 \<le> length b"
  shows "\<exists>v. LittleEndian_Uint32 (take 4 b) = Return v
            \<and> ReadLittleEndianUInt32 b = Return (v, drop 4 b)"
proof -
  obtain v where "LittleEndian_Uint32 (take 4 b) = Return v"
    using LittleEndian_Uint32_total[of "take 4 b"] assms by auto
  then show ?thesis
    using assms by (simp add: ReadLittleEndianUInt32_def read_bytes_take)
qed

lemma ReadLittleEndianUInt16_at:
  assumes "k + 2 \<le> length d"
  shows "\<exists>v. LittleEndian_Uint16 (take 2 (drop k d)) = Return v
            \<and> ReadLittleEndianUInt16 (drop k d) = Return (v, drop (k + 2) d)"
proof -
  have "2 \<le> length (drop k d)"
    using assms by simp
  from ReadLittleEndianUInt16_ok[OF this] show ?thesis
    by (simp add: add.commute)
qed

lemma ReadLittleEndianUInt32_at:
  assumes "k + 4 \<le> length d"
  shows "\<exists>v. LittleEndian_Uint32 (take 4 (drop k d)) = Return v
            \<and> ReadLittleEndianUInt32 (drop k d) = Return (v, drop (k + 4) d)"
proof -
  have "4 \<le> length (drop k d)"
    using assms by simp
  from ReadLittleEndianUInt32_ok[OF this] show ?thesis
    by (simp add: add.commute)
qed

lemma parse_fields_ok:
  assumes "16 \<le> length d"
  shows "\<exists>af chn sr bps ba bits.
           LittleEndian_Uint16 (take 2 d) = Return af
           \<and> LittleEndian_Uint16 (take 2 (drop 2 d)) = Return chn
           \<and> LittleEndian_Uint32 (take 4 (drop 4 d)) = Return sr
           \<and> LittleEndian_Uint32 (take 4 (drop 8 d)) = Return bps
           \<and> LittleEndian_Uint16 (take 2 (drop 12 d)) = Return ba
           \<and> LittleEndian_Uint16 (take 2 (drop 14 d)) = Return bits
           \<and> parse_fields d =
               Return (\<lparr>BitsPerSample = bits, Channels = chn, SampleRate = sr,
                        AudioFormat = af\<rparr>, bps, ba)"
proof -
  have l: "2 \<le> length d" "2 + 2 \<le> length d" "4 + 4 \<le> length d" "8 + 4 \<le> length d"
    "12 + 2 \<le> length d" "14 + 2 \<le> length d"
    using assms by simp_all
  from ReadLittleEndianUInt16_ok[OF l(1)] obtain af where
    1: "LittleEndian_Uint16 (take 2 d) = Return af"
       "ReadLittleEndianUInt16 d = Return (af, drop 2 d)"
    by auto
  from ReadLittleEndianUInt16_at[OF l(2)] obtain chn where
    2: "LittleEndian_Uint16 (take 2 (drop 2 d)) = Return chn"
       "ReadLittleEndianUInt16 (drop 2 d) = Return (chn, drop 4 d)"
    by auto
  from ReadLittleEndianUInt32_at[OF l(3)] obtain sr where
    3: "LittleEndian_Uint32 (take 4 (drop 4 d)) = Return sr"
       "ReadLittleEndianUInt32 (drop 4 d) = Return (sr, drop 8 d)"
    by auto
  from ReadLittleEndianUInt32_at[OF l(4)] obtain bps where
    4: "LittleEndian_Uint32 (take 4 (drop 8 d)) = Return bps"
       "ReadLittleEndianUInt32 (drop 8 d) = Return (bps, drop 12 d)"
    by auto
  from ReadLittleEndianUInt16_at[OF l(5)] obtain ba where
    5: "LittleEndian_Uint16 (take 2 (drop 12 d)) = Return ba"
       "ReadLittleEndianUInt16 (drop 12 d) = Return (ba, drop 14 d)"
    by auto
  from ReadLittleEndianUInt16_at[OF l(6)] obtain bits where
    6: "LittleEndian_Uint16 (take 2 (drop 14 d)) = Return bits"
       "ReadLittleEndianUInt16 (drop 14 d) = Return (bits, drop 16 d)"
    by auto
  show ?thesis
    using 1 2 3 4 5 6 by (simp add: parse_fields_def)
qed

lemma wave_errors_Corrupted:
  "errors_Is (Errorf_w m ErrInconsistentBytesPerSecond) ErrCorrupted"
  "errors_Is (Errorf_w m ErrInconsistentBlockAlignment) ErrCorrupted"
  "errors_Is (Errorf_w m ErrInvalidBitRate) ErrCorrupted"
  "errors_Is (Errorf_w m ErrInvalidChannelCount) ErrCorrupted"
  "errors_Is (Errorf_w m ErrInvalidSampleRate) ErrCorrupted"
  "errors_Is (Errorf_w m ErrBadWaveData) ErrCorrupted"
  by (simp_all add: ErrInconsistentBytesPerSecond_def ErrInconsistentBlockAlignment_def
        ErrInvalidBitRate_def ErrInvalidChannelCount_def ErrInvalidSampleRate_def
        ErrBadWaveData_def)

lemma fmtExample_bytes:
  "fmtExample = [0x66, 0x6D, 0x74, 0x20, 16, 0, 0, 0, 1, 0, 2, 0, 0x44, 0xAC, 0, 0,
                 0x10, 0xB1, 2, 0, 4, 0, 16, 0]"
  by (simp add: fmtExample_def FourCCFormat_def LittleEndianUInt32Bytes_def
        LittleEndianUInt16Bytes_def)

text \<open>
  Where nothing overflows 32 bits, the product of \<open>BytesPerSecond\<close> is the product of the
  numbers.
\<close>

lemma BytesPerSecond_exact:
  assumes "unat (SampleRate f) * unat (BitsPerSample f) < 2 ^ 32"
    and "unat (SampleRate f) * unat (BitsPerSample f) div 8 * unat (Channels f) < 2 ^ 32"
  shows "unat (BytesPerSecond f)
         = unat (SampleRate f) * unat (BitsPerSample f) div 8 * unat (Channels f)"
proof -
  have up: "unat (ucast w :: 32 word) = unat w" for w :: "16 word"
  proof -
    have "unat w < 2 ^ 16"
      using unsigned_less[of w] by simp
    then have "unat w < 2 ^ 32"
      by simp
    then show ?thesis
      by (simp add: unsigned_ucast_eq take_bit_nat_eq_self)
  qed
  have b: "unat (ucast (BitsPerSample f) :: 32 word) = unat (BitsPerSample f)"
    by (rule up)
  have c: "unat (ucast (Channels f) :: 32 word) = unat (Channels f)"
    by (rule up)
  have 1: "unat (SampleRate f * ucast (BitsPerSample f))
           = unat (SampleRate f) * unat (BitsPerSample f)"
    using assms(1) b by (simp add: unat_mult_lem[THEN iffD1])
  have 2: "unat (SampleRate f * ucast (BitsPerSample f) div 8)
           = unat (SampleRate f) * unat (BitsPerSample f) div 8"
    using 1 by (simp add: unat_div)
  show ?thesis
    unfolding BytesPerSecond_def
    using assms(2) 2 c by (simp add: unat_mult_lem[THEN iffD1])
qed

lemma read_bytes_short: "length b < k \<Longrightarrow> read_bytes k acc b = Panic"
proof (induction k arbitrary: acc b)
  case 0
  then show ?case by simp
next
  case (Suc k)
  then show ?case by (cases b) auto
qed

text \<open>
  The cross-field checks on a chunk that stores all six fields. Let \<open>ReadChunk\<close> return
  a chunk with the count 24 and the identifier \<open>"fmt "\<close> whose data holds at least 16
  bytes. The format is decoded from the fields in their order. If the stored byte rate
  differs from \<open>BytesPerSecond\<close> of the decoded format (sample rate times bits per
  sample, divided by 8, times channels, in \<open>uint32\<close> arithmetic, which wraps around) or
  the stored block alignment differs from \<open>BlockAlign\<close> (bits per sample divided by 8,
  times channels, in \<open>uint16\<close> arithmetic), \<open>FormatFromReader\<close> fails with an error that
  is \<open>ErrCorrupted\<close>. If both stored fields equal the recomputed values, both checks pass
  and the result is that of \<open>Validate\<close>. The bound on the length of the data is needed:
  the acceptance checks of \<open>FormatFromReader\<close> look at the count and the identifier only.
\<close>

lemma FormatFromReader_cross_checks:
  assumes "r zero_Chunk = Return (ch, n, None)" and "n = LengthFormatChunk"
    and "Identifier ch = FourCCFormat" and "16 \<le> length (Data ch)"
  shows "\<exists>f bps ba.
           LittleEndian_Uint16 (take 2 (Data ch)) = Return (AudioFormat f)
           \<and> LittleEndian_Uint16 (take 2 (drop 2 (Data ch))) = Return (Channels f)
           \<and> LittleEndian_Uint32 (take 4 (drop 4 (Data ch))) = Return (SampleRate f)
           \<and> LittleEndian_Uint32 (take 4 (drop 8 (Data ch))) = Return bps
           \<and> LittleEndian_Uint16 (take 2 (drop 12 (Data ch))) = Return ba
           \<and> LittleEndian_Uint16 (take 2 (drop 14 (Data ch))) = Return (BitsPerSample f)
           \<and> (bps \<noteq> SampleRate f * ucast (BitsPerSample f) div 8 * ucast (Channels f)
                \<or> ba \<noteq> BitsPerSample f div 8 * Channels f \<longrightarrow>
                (\<exists>e. FormatFromReader r = Return (f, Some e) \<and> errors_Is e ErrCorrupted))
           \<and> (bps = SampleRate f * ucast (BitsPerSample f) div 8 * ucast (Channels f)
                \<and> ba = BitsPerSample f div 8 * Channels f \<longrightarrow>
                FormatFromReader r = Return (f, Validate f))"
proof -
  from parse_fields_ok[OF assms(4)] obtain af chn sr bps ba bits where
    p: "LittleEndian_Uint16 (take 2 (Data ch)) = Return af"
       "LittleEndian_Uint16 (take 2 (drop 2 (Data ch))) = Return chn"
       "LittleEndian_Uint32 (take 4 (drop 4 (Data ch))) = Return sr"
       "LittleEndian_Uint32 (take 4 (drop 8 (Data ch))) = Return bps"
       "LittleEndian_Uint16 (take 2 (drop 12 (Data ch))) = Return ba"
       "LittleEndian_Uint16 (take 2 (drop 14 (Data ch))) = Return bits" and
    pf: "parse_fields (Data ch) =
               Return (\<lparr>BitsPerSample = bits, Channels = chn, SampleRate = sr,
                        AudioFormat = af\<rparr>, bps, ba)"
    by (elim exE conjE)
  let ?f = "\<lparr>BitsPerSample = bits, Channels = chn, SampleRate = sr, AudioFormat = af\<rparr>"
  have ffr: "FormatFromReader r =
       (if bps \<noteq> BytesPerSecond ?f then
          Return (?f, Some (Errorf_w ''stream has invalid average bytes-per-second field''
                     ErrInconsistentBytesPerSecond))
        else if ba \<noteq> BlockAlign ?f then
          Return (?f, Some (Errorf_w ''stream contained invalid block alignment''
                     ErrInconsistentBlockAlignment))
        else Return (?f, Validate ?f))"
    using assms(1,2,3) pf by (simp add: FormatFromReader_def split: option.splits)
  show ?thesis
    apply (rule exI[of _ ?f], rule exI[of _ bps], rule exI[of _ ba])
    using p ffr wave_errors_Corrupted(1,2)
    by (auto simp: BytesPerSecond_def BlockAlign_def)
qed

lemma FormatFromReader_cross_checks_fmtExample:
  "readerFrom \<lparr>Identifier = FourCCFormat, Data = drop 8 fmtExample\<rparr> zero_Chunk =
     Return (\<lparr>Identifier = FourCCFormat, Data = drop 8 fmtExample\<rparr>, 24, None)
   \<and> 24 = LengthFormatChunk
   \<and> 16 \<le> length (Data \<lparr>Identifier = FourCCFormat, Data = drop 8 fmtExample\<rparr>)
   \<and> FormatFromReader (readerFrom \<lparr>Identifier = FourCCFormat, Data = drop 8 fmtExample\<rparr>) =
       Return (\<lparr>BitsPerSample = 16, Channels = 2, SampleRate = 44100, AudioFormat = 1\<rparr>, None)
   \<and> (\<exists>e. FormatFromReader
              (readerFrom \<lparr>Identifier = FourCCFormat,
                           Data = [1, 0, 2, 0, 0x44, 0xAC, 0, 0, 0, 0, 0, 0, 4, 0, 16, 0]\<rparr>) =
            Return (\<lparr>BitsPerSample = 16, Channels = 2, SampleRate = 44100, AudioFormat = 1\<rparr>,
                    Some e)
         \<and> errors_Is e ErrCorrupted)"
proof -
  let ?ch = "\<lparr>Identifier = FourCCFormat, Data = drop 8 fmtExample\<rparr>"
  have h1: "readerFrom ?ch zero_Chunk = Return (?ch, 24, None)"
    by (simp add: readerFrom_def fmtExample_bytes)
  have h2: "24 = LengthFormatChunk"
    by (simp add: LengthFormatChunk_def LengthChunkHeader_def)
  have h3: "Identifier ?ch = FourCCFormat"
    by simp
  have h4: "16 \<le> length (Data ?ch)"
    by (simp add: fmtExample_bytes)
  from FormatFromReader_cross_checks[of "readerFrom ?ch" ?ch 24, OF h1 h2 h3 h4]
  obtain f bps ba where
    a: "LittleEndian_Uint16 (take 2 (Data ?ch)) = Return (AudioFormat f)"
       "LittleEndian_Uint16 (take 2 (drop 2 (Data ?ch))) = Return (Channels f)"
       "LittleEndian_Uint32 (take 4 (drop 4 (Data ?ch))) = Return (SampleRate f)"
       "LittleEndian_Uint32 (take 4 (drop 8 (Data ?ch))) = Return bps"
       "LittleEndian_Uint16 (take 2 (drop 12 (Data ?ch))) = Return ba"
       "LittleEndian_Uint16 (take 2 (drop 14 (Data ?ch))) = Return (BitsPerSample f)" and
    b: "bps \<noteq> SampleRate f * ucast (BitsPerSample f) div 8 * ucast (Channels f)
         \<or> ba \<noteq> BitsPerSample f div 8 * Channels f \<longrightarrow>
         (\<exists>e. FormatFromReader (readerFrom ?ch) = Return (f, Some e) \<and> errors_Is e ErrCorrupted)"
       "bps = SampleRate f * ucast (BitsPerSample f) div 8 * ucast (Channels f)
         \<and> ba = BitsPerSample f div 8 * Channels f \<longrightarrow>
         FormatFromReader (readerFrom ?ch) = Return (f, Validate f)"
    by (elim exE conjE)
  have f: "AudioFormat f = 1" "Channels f = 2" "SampleRate f = 44100" "BitsPerSample f = 16"
    "bps = 176400" "ba = 4"
    using a by (simp_all add: fmtExample_bytes)
  then have feq: "f = \<lparr>BitsPerSample = 16, Channels = 2, SampleRate = 44100, AudioFormat = 1\<rparr>"
    by (cases f) simp
  have "FormatFromReader (readerFrom ?ch) = Return (f, Validate f)"
    using b(2) f by simp
  then have good: "FormatFromReader (readerFrom ?ch) =
       Return (\<lparr>BitsPerSample = 16, Channels = 2, SampleRate = 44100, AudioFormat = 1\<rparr>, None)"
    unfolding feq by (simp add: Validate_def)
  let ?bad = "\<lparr>Identifier = FourCCFormat,
               Data = [1, 0, 2, 0, 0x44, 0xAC, 0, 0, 0, 0, 0, 0, 4, 0, 16, 0 :: byte]\<rparr>"
  have g1: "readerFrom ?bad zero_Chunk = Return (?bad, 24, None)"
    by (simp add: readerFrom_def fmtExample_bytes)
  have g3: "Identifier ?bad = FourCCFormat"
    by simp
  have g4: "16 \<le> length (Data ?bad)"
    by simp
  from FormatFromReader_cross_checks[of "readerFrom ?bad" ?bad 24, OF g1 h2 g3 g4]
  obtain g bps' ba' where
    a': "LittleEndian_Uint16 (take 2 (Data ?bad)) = Return (AudioFormat g)"
       "LittleEndian_Uint16 (take 2 (drop 2 (Data ?bad))) = Return (Channels g)"
       "LittleEndian_Uint32 (take 4 (drop 4 (Data ?bad))) = Return (SampleRate g)"
       "LittleEndian_Uint32 (take 4 (drop 8 (Data ?bad))) = Return bps'"
       "LittleEndian_Uint16 (take 2 (drop 12 (Data ?bad))) = Return ba'"
       "LittleEndian_Uint16 (take 2 (drop 14 (Data ?bad))) = Return (BitsPerSample g)" and
    b': "bps' \<noteq> SampleRate g * ucast (BitsPerSample g) div 8 * ucast (Channels g)
         \<or> ba' \<noteq> BitsPerSample g div 8 * Channels g \<longrightarrow>
         (\<exists>e. FormatFromReader (readerFrom ?bad) = Return (g, Some e) \<and> errors_Is e ErrCorrupted)"
       "bps' = SampleRate g * ucast (BitsPerSample g) div 8 * ucast (Channels g)
         \<and> ba' = BitsPerSample g div 8 * Channels g \<longrightarrow>
         FormatFromReader (readerFrom ?bad) = Return (g, Validate g)"
    by (elim exE conjE)
  have g: "AudioFormat g = 1" "Channels g = 2" "SampleRate g = 44100" "BitsPerSample g = 16"
    "bps' = 0" "ba' = 4"
    using a' by simp_all
  then have geq: "g = \<lparr>BitsPerSample = 16, Channels = 2, SampleRate = 44100, AudioFormat = 1\<rparr>"
    by (cases g) simp
  have "\<exists>e. FormatFromReader (readerFrom ?bad) = Return (g, Some e) \<and> errors_Is e ErrCorrupted"
    using b'(1) g by simp
  then have bad: "\<exists>e. FormatFromReader (readerFrom ?bad) =
            Return (\<lparr>BitsPerSample = 16, Channels = 2, SampleRate = 44100, AudioFormat = 1\<rparr>,
                    Some e) \<and> errors_Is e ErrCorrupted"
    unfolding geq .
  show ?thesis
    using h1 h2 h4 good bad by simp
qed

subsection \<open>C7\<close>

text \<open>
  C7 says that every chunk accepted as a format chunk, by its identifier \<open>"fmt "\<close> and
  its on-wire length 24, either fails to decode with an error that is \<open>ErrCorrupted\<close>
  or passes both cross-field checks. It does not hold of a chunk \<open>"fmt "\<close> with the
  declared size 15. Its data, 15 bytes, is followed in the stream by one padding byte, so
  \<open>ReadChunk\<close> returns it with the count 24 and no error: the count is that of a chunk
  of 16 bytes, \<open>LengthFormatChunk\<close>. \<open>FormatFromReader\<close> accepts the count and the
  identifier and decodes the fields from the 15 bytes; for the last field, the bits per
  sample, one byte is left, and \<open>ReadLittleEndianUInt16\<close> panics. No error is returned
  and no cross-field check is reached. The comment in \<open>FormatFromReader\<close> says that
  after the two acceptance checks the data has the right length and no panic can occur.
\<close>

theorem FormatFromReader_size_15_panics:
  "ReadChunk bytes_Reader_Read
     \<lparr>fileType_r = FileTypeWavefile, size_r = 28, bytesRead = 4,
      r_io = FourCCFormat @ [15, 0, 0, 0]
             @ [1, 0, 2, 0, 0x44, 0xAC, 0, 0, 0x10, 0xB1, 2, 0, 4, 0, 16, 0]\<rparr> zero_Chunk =
   Return (\<lparr>fileType_r = FileTypeWavefile, size_r = 28, bytesRead = 28, r_io = []\<rparr>,
           \<lparr>Identifier = FourCCFormat,
            Data = [1, 0, 2, 0, 0x44, 0xAC, 0, 0, 0x10, 0xB1, 2, 0, 4, 0, 16]\<rparr>,
           24, None)
   \<and> 24 = LengthFormatChunk
   \<and> FormatFromReader
       (as_goriffa_Reader bytes_Reader_Read
          \<lparr>fileType_r = FileTypeWavefile, size_r = 28, bytesRead = 4,
           r_io = FourCCFormat @ [15, 0, 0, 0]
                  @ [1, 0, 2, 0, 0x44, 0xAC, 0, 0, 0x10, 0xB1, 2, 0, 4, 0, 16, 0]\<rparr>) = Panic"
  by (simp add: FormatFromReader_def as_goriffa_Reader_def eval_defs LengthFormatChunk_def
        parse_fields_def ReadLittleEndianUInt16_def ReadLittleEndianUInt32_def
        read_bytes_take read_bytes_short)

section \<open>The round trip\<close>

lemma Buffer_Write_loop:
  "0 \<le> t \<Longrightarrow> t + int (length (concat bufs)) < 2 ^ 63 \<Longrightarrow>
   internal_Write_loop Buffer s bufs t = ((t + int (length (concat bufs)), None), s @ concat bufs)"
proof (induction bufs arbitrary: s t)
  case Nil
  then show ?case by simp
next
  case (Cons b bufs)
  have w: "wrap64 (t + int (length b)) = t + int (length b)"
    using Cons.prems by (intro wrap64_id) auto
  show ?case
    using Cons.prems Cons.IH[of "t + int (length b)" "s @ b"]
    by (simp add: Buffer_def Buffer_Write_def w add.assoc)
qed

lemma Buffer_Write:
  "int (length (concat bufs)) < 2 ^ 63 \<Longrightarrow>
   internal_Write Buffer s bufs = ((int (length (concat bufs)), None), s @ concat bufs)"
  using Buffer_Write_loop[of 0 bufs s] by (simp add: internal_Write_def)

lemma writer_New_Buffer:
  "length ft = 4 \<Longrightarrow>
   writer_New Buffer s ft =
     Inr \<lparr>w_io = s @ FourCCRIFF @ EmptyBytes @ ft, fileType_w = ft, fileSize = 4, closed = False\<rparr>"
  by (simp add: writer_New_def writer_init_def Buffer_Write FourCCRIFF_def EmptyBytes_def)

lemma length_chunk_bytes:
  "length (Identifier c) = 4 \<Longrightarrow> length (chunk_bytes c) = wire_length c"
  by (simp add: chunk_bytes_def wire_length_def length_Pad LittleEndianUInt32Bytes_def)

lemma ByteLength_wire:
  "int (wire_length c) \<le> MaxUint32 \<Longrightarrow> ByteLength c = int (wire_length c)"
proof -
  assume a: "int (wire_length c) \<le> MaxUint32"
  then have l: "int (length (Data c)) < 2 ^ 63"
    by (simp add: wire_length_def MaxUint32_def)
  have "wrap64 (int (wire_length c)) = int (wire_length c)"
    using a by (intro wrap64_id) (simp_all add: MaxUint32_def)
  then show ?thesis
    by (simp add: ByteLength_wrap[OF l] wire_length_def zmod_int)
qed

lemma WriteChunk_Buffer:
  assumes "\<not> closed w" "0 \<le> fileSize w" "fileSize w + int (wire_length c) \<le> MaxUint32"
    and "length (Identifier c) = 4"
  shows "WriteChunk Buffer w c =
           (w\<lparr>w_io := w_io w @ chunk_bytes c, fileSize := fileSize w + int (wire_length c)\<rparr>,
            int (wire_length c), None)"
proof -
  have wl: "int (wire_length c) \<le> MaxUint32"
    using assms(2,3) by simp
  have bl: "ByteLength c = int (wire_length c)"
    by (rule ByteLength_wire[OF wl])
  have ns: "wrap64 (fileSize w + int (wire_length c)) = fileSize w + int (wire_length c)"
    using assms(2,3) by (intro wrap64_id) (simp_all add: MaxUint32_def)
  have len: "length (concat [Identifier c, LittleEndianUInt32Bytes (word_of_nat (length (Data c))),
                Pad (Data c)]) = wire_length c"
    using length_chunk_bytes[OF assms(4)] by (simp add: chunk_bytes_def)
  have iw: "internal_Write Buffer (w_io w)
              [Identifier c, LittleEndianUInt32Bytes (word_of_nat (length (Data c))), Pad (Data c)]
            = ((int (wire_length c), None), w_io w @ chunk_bytes c)"
    using Buffer_Write[of "[Identifier c, LittleEndianUInt32Bytes (word_of_nat (length (Data c))),
                Pad (Data c)]" "w_io w"] wl
    unfolding len by (simp add: chunk_bytes_def MaxUint32_def)
  show ?thesis
    using assms(1,2,3) by (simp add: WriteChunk_def bl ns iw Let_def)
qed

lemma WriteChunks_Buffer:
  assumes "\<not> closed w" "0 \<le> fileSize w"
    and "fileSize w + int (sum_list (map wire_length cs)) \<le> MaxUint32"
    and "\<forall>c \<in> set cs. length (Identifier c) = 4"
  shows "WriteChunks Buffer w cs =
           (w\<lparr>w_io := w_io w @ concat (map chunk_bytes cs),
              fileSize := fileSize w + int (sum_list (map wire_length cs))\<rparr>, None)"
  using assms
proof (induction cs arbitrary: w)
  case Nil
  then show ?case by simp
next
  case (Cons c cs)
  let ?w' = "w\<lparr>w_io := w_io w @ chunk_bytes c, fileSize := fileSize w + int (wire_length c)\<rparr>"
  have wc: "WriteChunk Buffer w c = (?w', int (wire_length c), None)"
    using Cons.prems by (intro WriteChunk_Buffer) auto
  have "WriteChunks Buffer ?w' cs =
          (?w'\<lparr>w_io := w_io ?w' @ concat (map chunk_bytes cs),
              fileSize := fileSize ?w' + int (sum_list (map wire_length cs))\<rparr>, None)"
    using Cons.prems by (intro Cons.IH) auto
  then show ?case
    using wc by (simp add: add.assoc)
qed

lemma Close_Buffer:
  assumes "\<not> closed w" "8 \<le> length (w_io w)"
  shows "Close Buffer w =
           Return (w\<lparr>closed := True,
                     w_io := take 4 (w_io w)
                             @ LittleEndianUInt32Bytes (word_of_int (fileSize w))
                             @ drop 8 (w_io w)\<rparr>, None)"
  using assms
  by (simp add: Close_open Buffer_def Buffer_WriteAt_def LittleEndianUInt32Bytes_def)

lemma write_file_Buffer:
  assumes "length ft = 4" "\<forall>c \<in> set cs. length (Identifier c) = 4"
    and "4 + int (sum_list (map wire_length cs)) \<le> MaxUint32"
  shows "write_file Buffer [] ft cs =
           Return (Inr (FourCCRIFF
                        @ LittleEndianUInt32Bytes
                            (word_of_int (4 + int (sum_list (map wire_length cs))))
                        @ ft @ concat (map chunk_bytes cs)))"
proof -
  let ?w0 = "\<lparr>w_io = [] @ FourCCRIFF @ EmptyBytes @ ft, fileType_w = ft, fileSize = 4,
              closed = False\<rparr>"
  let ?w1 = "?w0\<lparr>w_io := w_io ?w0 @ concat (map chunk_bytes cs),
                  fileSize := fileSize ?w0 + int (sum_list (map wire_length cs))\<rparr>"
  have n: "writer_New Buffer [] ft = Inr ?w0"
    by (rule writer_New_Buffer[OF assms(1)])
  have w: "WriteChunks Buffer ?w0 cs = (?w1, None)"
    using assms(2,3) by (intro WriteChunks_Buffer) auto
  have c: "Close Buffer ?w1 =
             Return (?w1\<lparr>closed := True,
                         w_io := take 4 (w_io ?w1)
                                 @ LittleEndianUInt32Bytes (word_of_int (fileSize ?w1))
                                 @ drop 8 (w_io ?w1)\<rparr>, None)"
    by (intro Close_Buffer) (simp_all add: FourCCRIFF_def EmptyBytes_def)
  show ?thesis
    unfolding write_file_def n
    using w c assms(1) by (simp add: FourCCRIFF_def EmptyBytes_def)
qed

lemma bytes_Buffer_header_full:
  assumes "12 \<le> length bs"
  shows "internal_Read bytes_Buffer_Read bs [replicate 4 0, replicate 4 0, replicate 4 0]
            = (([take 4 bs, take 4 (drop 4 bs), take 4 (drop 8 bs)], 12, None), drop 12 bs)"
  using assms
  by (auto simp: internal_Read_def bytes_Buffer_Read_def Let_def copy_into_def wrap64_def min_def
        add.commute)

lemma reader_New_Buffer_full:
  assumes "12 \<le> length bs"
  shows "\<exists>sz. LittleEndian_Uint32 (take 4 (drop 4 bs)) = Return sz \<and>
          reader_New bytes_Buffer_Read bs =
           (if take 4 bs \<noteq> FourCCRIFF then
              Return (Inl (Errorf_w ''data does not begin with RIFF header'' ErrCorrupted))
            else if sz < 4 then Return (Inl (Errorf_w ''impossibly small file size'' ErrCorrupted))
            else Return (Inr \<lparr>fileType_r = take 4 (drop 8 bs), size_r = sz, bytesRead = 4,
                              r_io = drop 12 bs\<rparr>))"
proof -
  let ?bufs = "[take 4 bs, take 4 (drop 4 bs), take 4 (drop 8 bs)]"
  from reader_New_read_ok[OF bytes_Buffer_header_full[OF assms]] obtain sz where
    a: "LittleEndian_Uint32 (?bufs ! 1) = Return sz" and
    b: "reader_New bytes_Buffer_Read bs =
           (if ?bufs ! 0 \<noteq> FourCCRIFF then
              Return (Inl (Errorf_w ''data does not begin with RIFF header'' ErrCorrupted))
            else if sz < 4 then Return (Inl (Errorf_w ''impossibly small file size'' ErrCorrupted))
            else Return (Inr \<lparr>fileType_r = ?bufs ! 2, size_r = sz, bytesRead = 4,
                              r_io = drop 12 bs\<rparr>))"
    by (elim exE conjE)
  have "LittleEndian_Uint32 (take 4 (drop 4 bs)) = Return sz"
    using a by simp
  moreover have "reader_New bytes_Buffer_Read bs =
           (if take 4 bs \<noteq> FourCCRIFF then
              Return (Inl (Errorf_w ''data does not begin with RIFF header'' ErrCorrupted))
            else if sz < 4 then Return (Inl (Errorf_w ''impossibly small file size'' ErrCorrupted))
            else Return (Inr \<lparr>fileType_r = take 4 (drop 8 bs), size_r = sz, bytesRead = 4,
                              r_io = drop 12 bs\<rparr>))"
    using b by simp
  ultimately show ?thesis
    by blast
qed

lemma reader_New_Buffer:
  assumes "length ft = 4" "4 \<le> sz"
  shows "reader_New bytes_Buffer_Read (FourCCRIFF @ LittleEndianUInt32Bytes sz @ ft @ rest) =
           Return (Inr \<lparr>fileType_r = ft, size_r = sz, bytesRead = 4, r_io = rest\<rparr>)"
proof -
  define bs where "bs = FourCCRIFF @ LittleEndianUInt32Bytes sz @ ft @ rest"
  have l: "12 \<le> length bs"
    using assms(1) by (simp add: bs_def FourCCRIFF_def LittleEndianUInt32Bytes_def)
  have t: "take 4 bs = FourCCRIFF" "take 4 (drop 4 bs) = LittleEndianUInt32Bytes sz"
    "take 4 (drop 8 bs) = ft" "drop 12 bs = rest"
    using assms(1) by (simp_all add: bs_def FourCCRIFF_def LittleEndianUInt32Bytes_def)
  from reader_New_Buffer_full[OF l] have
    "reader_New bytes_Buffer_Read bs =
       Return (Inr \<lparr>fileType_r = ft, size_r = sz, bytesRead = 4, r_io = rest\<rparr>)"
    using assms(2) unfolding t by (auto simp: LE32_roundtrip not_less[symmetric])
  then show ?thesis
    by (simp add: bs_def)
qed

lemma take_Pad: "take (length b) (Pad b) = b"
  by (simp add: Pad_def Let_def)

lemma PaddedLength_uint_bound: "PaddedLength (uint (sz :: 32 word)) < 2 ^ 33"
proof -
  have "unat sz < 2 ^ 32"
    using unsigned_less[of sz] by simp
  moreover have "unat sz mod 2 \<le> 1"
    by simp
  ultimately have "unat sz + unat sz mod 2 < 2 ^ 33"
    by simp
  then show ?thesis
    unfolding PaddedLength_uint by (metis of_nat_less_iff of_nat_numeral of_nat_power)
qed

lemma Reader_read_full_ok:
  assumes "rd (r_io r) (length b) = ((bs, None), s')" "length bs = length b"
    and "0 \<le> bytesRead r"
    and "bytesRead r + int (length b) \<le> PaddedLength (uint (size_r r))"
  shows "Reader_read rd r b =
           (r\<lparr>r_io := s', bytesRead := bytesRead r + int (length b)\<rparr>, bs, length b, None)"
proof -
  have "bytesRead r + int (length b) < 2 ^ 63"
    using assms(4) PaddedLength_uint_bound[of "size_r r"] by simp
  then have w: "wrap64 (bytesRead r + int (length b)) = bytesRead r + int (length b)"
    using assms(3) by (intro wrap64_id) simp_all
  show ?thesis
    using assms by (simp add: Reader_read_def Let_def w copy_into_def)
qed

lemma ReadChunk_step:
  assumes hdr: "rd (r_io r) 8 =
                  ((Identifier c @ LittleEndianUInt32Bytes (word_of_nat (length (Data c))), None), s1)"
    and pay: "rd s1 (length (Data c) + length (Data c) mod 2) = ((Pad (Data c), None), s2)"
    and idl: "length (Identifier c) = 4" and len: "length (Data c) < 2 ^ 32"
    and b0: "0 \<le> bytesRead r"
    and bd: "bytesRead r + int (wire_length c) \<le> PaddedLength (uint (size_r r))"
  shows "ReadChunk rd r chunk0 =
           Return (r\<lparr>r_io := s2, bytesRead := bytesRead r + int (wire_length c)\<rparr>, c,
                   wire_length c, None)"
proof -
  let ?h = "Identifier c @ LittleEndianUInt32Bytes (word_of_nat (length (Data c)))"
  let ?r1 = "r\<lparr>r_io := s1, bytesRead := bytesRead r + int (length (replicate 8 (0 :: byte)))\<rparr>"
  let ?L = "length (Data c) + length (Data c) mod 2"
  have hl: "length ?h = 8"
    using idl by (simp add: LittleEndianUInt32Bytes_def)
  have h: "Reader_read rd r (replicate 8 0) = (?r1, ?h, length (replicate 8 (0 :: byte)), None)"
    using hdr hl b0 bd by (intro Reader_read_full_ok) (simp_all add: wire_length_def)
  have u: "unat (word_of_nat (length (Data c)) :: 32 word) = length (Data c)"
    using len by (simp add: unat_of_nat take_bit_nat_eq_self)
  have d: "Reader_read rd ?r1 (Pad (replicate (length (Data c)) 0)) =
             (?r1\<lparr>r_io := s2,
                  bytesRead := bytesRead ?r1 + int (length (Pad (replicate (length (Data c)) (0 :: byte))))\<rparr>,
              Pad (Data c), length (Pad (replicate (length (Data c)) (0 :: byte))), None)"
    using pay b0 bd by (intro Reader_read_full_ok) (simp_all add: length_Pad wire_length_def)
  from ReadChunk_unfold[OF h, of chunk0] obtain sz where
    sz: "LittleEndian_Uint32 (drop 4 ?h) = Return sz" and
    rc: "ReadChunk rd r chunk0 =
       (if None \<noteq> (None :: error option)
        then Return (?r1, chunk0, length (replicate 8 (0 :: byte)), None)
        else if length (replicate 8 (0 :: byte)) < 8
        then Return (?r1, chunk0, length (replicate 8 (0 :: byte)), Some errCorruptedTooShort)
        else (case Reader_read rd ?r1 (Pad (replicate (unat sz) 0)) of
                (r2, data', dN, dErr) \<Rightarrow>
                  Return (r2, \<lparr>Identifier = take 4 ?h, Data = take (unat sz) data'\<rparr>,
                          length (replicate 8 (0 :: byte)) + dN,
                          if dErr \<noteq> None then dErr
                          else if dN < unat sz + unat sz mod 2 then Some errCorruptedTooShort
                          else None)))"
    by (elim exE conjE)
  have "sz = word_of_nat (length (Data c))"
    using sz idl by (simp add: LE32_roundtrip)
  then have usz: "unat sz = length (Data c)"
    using u by simp
  show ?thesis
    unfolding rc usz d
    using idl by (simp add: length_Pad take_Pad wire_length_def add.assoc)
qed

lemma Pad_Nil: "Pad [] = []"
  by (simp add: Pad_def go_rem_def)

lemma Pad_Nil_iff: "Pad b = [] \<longleftrightarrow> b = []"
proof
  assume "Pad b = []"
  then have "length (Pad b) = 0"
    by simp
  then show "b = []"
    by (simp add: length_Pad)
qed (simp add: Pad_Nil)

lemma bytes_Buffer_hdr:
  "length (Identifier c) = 4 \<Longrightarrow>
   bytes_Buffer_Read (chunk_bytes c @ rest) 8 =
     ((Identifier c @ LittleEndianUInt32Bytes (word_of_nat (length (Data c))), None),
      Pad (Data c) @ rest)"
  by (simp add: bytes_Buffer_Read_def chunk_bytes_def LittleEndianUInt32Bytes_def)

lemma bytes_Buffer_pay:
  "bytes_Buffer_Read (Pad (Data c) @ rest) (length (Data c) + length (Data c) mod 2) =
     ((Pad (Data c), None), rest)"
  by (auto simp: bytes_Buffer_Read_def Pad_Nil_iff Pad_Nil length_Pad)

lemma ReadChunk_Buffer_step:
  assumes "r_io r = chunk_bytes c @ rest"
    and "length (Identifier c) = 4" and "length (Data c) < 2 ^ 32"
    and "0 \<le> bytesRead r"
    and "bytesRead r + int (wire_length c) \<le> PaddedLength (uint (size_r r))"
  shows "ReadChunk bytes_Buffer_Read r chunk0 =
           Return (r\<lparr>r_io := rest, bytesRead := bytesRead r + int (wire_length c)\<rparr>, c,
                   wire_length c, None)"
  using assms(2,3,4,5)
  by (intro ReadChunk_step[where ?s1.0 = "Pad (Data c) @ rest"])
     (simp_all add: assms(1) bytes_Buffer_hdr bytes_Buffer_pay)

lemma ReadChunk_Buffer_end:
  assumes "r_io r = []" "0 \<le> bytesRead r" "bytesRead r < 2 ^ 63"
  shows "ReadChunk bytes_Buffer_Read r chunk0 = Return (r, chunk0, 0, Some EOF)"
proof -
  have w: "wrap64 (bytesRead r) = bytesRead r"
    using assms(2,3) by (intro wrap64_id) simp_all
  have "Reader_read bytes_Buffer_Read r (replicate 8 0) = (r, replicate 8 0, 0, Some EOF)"
    using assms(1) by (simp add: Reader_read_def bytes_Buffer_Read_def copy_into_def w)
  then show ?thesis
    by (rule ReadChunk_header_error)
qed

lemma ReadToEnd_loop_Buffer:
  assumes "r_io r = concat (map chunk_bytes cs)"
    and "\<forall>c \<in> set cs. length (Identifier c) = 4 \<and> length (Data c) < 2 ^ 32"
    and "0 \<le> bytesRead r"
    and "bytesRead r + int (sum_list (map wire_length cs)) \<le> PaddedLength (uint (size_r r))"
  shows "ReadToEnd_loop bytes_Buffer_Read r acc =
           Some (Return (r\<lparr>r_io := [],
                           bytesRead := bytesRead r + int (sum_list (map wire_length cs))\<rparr>,
                         acc @ cs, None))"
  using assms
proof (induction cs arbitrary: r acc)
  case Nil
  have "bytesRead r < 2 ^ 63"
    using Nil.prems(4) PaddedLength_uint_bound[of "size_r r"] by simp
  then have "ReadChunk bytes_Buffer_Read r zero_Chunk = Return (r, zero_Chunk, 0, Some EOF)"
    using Nil.prems by (intro ReadChunk_Buffer_end) simp_all
  from ReadToEnd_loop_EOF[OF this, of acc] show ?case
    using Nil.prems(1) by simp
next
  case (Cons c cs)
  let ?r' = "r\<lparr>r_io := concat (map chunk_bytes cs),
               bytesRead := bytesRead r + int (wire_length c)\<rparr>"
  have rc: "ReadChunk bytes_Buffer_Read r zero_Chunk = Return (?r', c, wire_length c, None)"
    using Cons.prems by (intro ReadChunk_Buffer_step) simp_all
  have "ReadToEnd_loop bytes_Buffer_Read ?r' (acc @ [c]) =
           Some (Return (?r'\<lparr>r_io := [],
                           bytesRead := bytesRead ?r' + int (sum_list (map wire_length cs))\<rparr>,
                         (acc @ [c]) @ cs, None))"
    using Cons.prems by (intro Cons.IH) (simp_all add: add.assoc)
  then show ?case
    unfolding ReadToEnd_loop_ok[OF rc, of acc] by (simp add: add.assoc)
qed

lemma wire_length_le_sum: "c \<in> set cs \<Longrightarrow> wire_length c \<le> sum_list (map wire_length cs)"
  by (induction cs) auto

text \<open>
  Written through \<open>test.Buffer\<close> and read back from a transport that answers a read of no
  bytes with \<open>0, nil\<close>, every sequence of chunks comes back as it was written.
\<close>

lemma roundtrip_Buffer:
  assumes "length ft = 4" and "\<forall>c \<in> set cs. length (Identifier c) = 4"
    and "4 + int (sum_list (map wire_length cs)) \<le> MaxUint32"
  shows "\<exists>bytes r0 r'.
           write_file Buffer [] ft cs = Return (Inr bytes)
           \<and> reader_New bytes_Buffer_Read bytes = Return (Inr r0) \<and> fileType_r r0 = ft
           \<and> ReadToEnd bytes_Buffer_Read r0 = Some (Return (r', cs, None))"
proof -
  let ?n = "4 + int (sum_list (map wire_length cs))"
  let ?sz = "word_of_int ?n :: 32 word"
  let ?body = "concat (map chunk_bytes cs)"
  let ?r0 = "\<lparr>fileType_r = ft, size_r = ?sz, bytesRead = 4, r_io = ?body\<rparr>"
  have u: "uint ?sz = ?n"
    using assms(3) by (intro uint32_fileSize) simp_all
  have "uint (4 :: 32 word) \<le> uint ?sz"
    unfolding u by simp
  then have sz4: "4 \<le> ?sz"
    by (simp only: word_le_def)
  have w: "write_file Buffer [] ft cs =
             Return (Inr (FourCCRIFF @ LittleEndianUInt32Bytes ?sz @ ft @ ?body))"
    by (rule write_file_Buffer[OF assms])
  have n: "reader_New bytes_Buffer_Read (FourCCRIFF @ LittleEndianUInt32Bytes ?sz @ ft @ ?body)
             = Return (Inr ?r0)"
    by (rule reader_New_Buffer[OF assms(1) sz4])
  have dl: "\<forall>c \<in> set cs. length (Identifier c) = 4 \<and> length (Data c) < 2 ^ 32"
  proof
    fix c assume c: "c \<in> set cs"
    have "int (wire_length c) \<le> int (sum_list (map wire_length cs))"
      using wire_length_le_sum[OF c] by simp
    then have "int (wire_length c) \<le> MaxUint32"
      using assms(3) by simp
    then have "length (Data c) < 2 ^ 32"
      by (simp add: wire_length_def MaxUint32_def)
    then show "length (Identifier c) = 4 \<and> length (Data c) < 2 ^ 32"
      using assms(2) c by simp
  qed
  have pl: "uint ?sz \<le> PaddedLength (uint ?sz)"
    unfolding PaddedLength_uint by simp
  have "ReadToEnd_loop bytes_Buffer_Read ?r0 [] =
           Some (Return (?r0\<lparr>r_io := [],
                           bytesRead := bytesRead ?r0 + int (sum_list (map wire_length cs))\<rparr>,
                         [] @ cs, None))"
    using dl pl u by (intro ReadToEnd_loop_Buffer) simp_all
  then have "ReadToEnd bytes_Buffer_Read ?r0 =
           Some (Return (?r0\<lparr>r_io := [],
                           bytesRead := bytesRead ?r0 + int (sum_list (map wire_length cs))\<rparr>,
                         cs, None))"
    by (simp add: ReadToEnd_def)
  then show ?thesis
    using w n by (intro exI conjI) simp_all
qed

lemma bytes_Reader_hdr:
  "length (Identifier c) = 4 \<Longrightarrow>
   bytes_Reader_Read (chunk_bytes c @ rest) 8 =
     ((Identifier c @ LittleEndianUInt32Bytes (word_of_nat (length (Data c))), None),
      Pad (Data c) @ rest)"
  by (simp add: bytes_Reader_Read_def chunk_bytes_def LittleEndianUInt32Bytes_def)

lemma bytes_Reader_pay:
  "Data c \<noteq> [] \<or> rest \<noteq> [] \<Longrightarrow>
   bytes_Reader_Read (Pad (Data c) @ rest) (length (Data c) + length (Data c) mod 2) =
     ((Pad (Data c), None), rest)"
  by (auto simp: bytes_Reader_Read_def Pad_Nil_iff length_Pad)

lemma ReadChunk_bytes_Reader_step:
  assumes "r_io r = chunk_bytes c @ rest" and "Data c \<noteq> [] \<or> rest \<noteq> []"
    and "length (Identifier c) = 4" and "length (Data c) < 2 ^ 32"
    and "0 \<le> bytesRead r"
    and "bytesRead r + int (wire_length c) \<le> PaddedLength (uint (size_r r))"
  shows "ReadChunk bytes_Reader_Read r chunk0 =
           Return (r\<lparr>r_io := rest, bytesRead := bytesRead r + int (wire_length c)\<rparr>, c,
                   wire_length c, None)"
  using assms(2,3,4,5,6)
  by (intro ReadChunk_step[where ?s1.0 = "Pad (Data c) @ rest"])
     (simp_all add: assms(1) bytes_Reader_hdr bytes_Reader_pay)

lemma ReadChunk_bytes_Reader_end:
  assumes "r_io r = []" "0 \<le> bytesRead r" "bytesRead r < 2 ^ 63"
  shows "ReadChunk bytes_Reader_Read r chunk0 = Return (r, chunk0, 0, Some EOF)"
proof -
  have w: "wrap64 (bytesRead r) = bytesRead r"
    using assms(2,3) by (intro wrap64_id) simp_all
  have "Reader_read bytes_Reader_Read r (replicate 8 0) = (r, replicate 8 0, 0, Some EOF)"
    using assms(1) by (simp add: Reader_read_def bytes_Reader_Read_def copy_into_def w)
  then show ?thesis
    by (rule ReadChunk_header_error)
qed

lemma chunk_bytes_not_Nil: "length (Identifier c) = 4 \<Longrightarrow> chunk_bytes c \<noteq> []"
  by (auto simp: chunk_bytes_def)

lemma ReadToEnd_loop_bytes_Reader:
  assumes "r_io r = concat (map chunk_bytes cs)"
    and "\<forall>c \<in> set cs. length (Identifier c) = 4 \<and> length (Data c) < 2 ^ 32"
    and "cs = [] \<or> Data (last cs) \<noteq> []"
    and "0 \<le> bytesRead r"
    and "bytesRead r + int (sum_list (map wire_length cs)) \<le> PaddedLength (uint (size_r r))"
  shows "ReadToEnd_loop bytes_Reader_Read r acc =
           Some (Return (r\<lparr>r_io := [],
                           bytesRead := bytesRead r + int (sum_list (map wire_length cs))\<rparr>,
                         acc @ cs, None))"
  using assms
proof (induction cs arbitrary: r acc)
  case Nil
  have "bytesRead r < 2 ^ 63"
    using Nil.prems(5) PaddedLength_uint_bound[of "size_r r"] by simp
  then have "ReadChunk bytes_Reader_Read r zero_Chunk = Return (r, zero_Chunk, 0, Some EOF)"
    using Nil.prems by (intro ReadChunk_bytes_Reader_end) simp_all
  from ReadToEnd_loop_EOF[OF this, of acc] show ?case
    using Nil.prems(1) by simp
next
  case (Cons c cs)
  let ?r' = "r\<lparr>r_io := concat (map chunk_bytes cs),
               bytesRead := bytesRead r + int (wire_length c)\<rparr>"
  have ne: "Data c \<noteq> [] \<or> concat (map chunk_bytes cs) \<noteq> []"
  proof (cases cs)
    case Nil
    then show ?thesis using Cons.prems(3) by simp
  next
    case (Cons d ds)
    then have "chunk_bytes d \<noteq> []"
      using Cons.prems(2) by (intro chunk_bytes_not_Nil) simp
    then show ?thesis using Cons by simp
  qed
  have rc: "ReadChunk bytes_Reader_Read r zero_Chunk = Return (?r', c, wire_length c, None)"
    using Cons.prems ne by (intro ReadChunk_bytes_Reader_step) simp_all
  have "ReadToEnd_loop bytes_Reader_Read ?r' (acc @ [c]) =
           Some (Return (?r'\<lparr>r_io := [],
                           bytesRead := bytesRead ?r' + int (sum_list (map wire_length cs))\<rparr>,
                         (acc @ [c]) @ cs, None))"
    using Cons.prems by (intro Cons.IH) (auto simp: add.assoc)
  then show ?case
    unfolding ReadToEnd_loop_ok[OF rc, of acc] by (simp add: add.assoc)
qed

lemma reader_New_bytes_Reader:
  assumes "length ft = 4" "4 \<le> sz"
  shows "reader_New bytes_Reader_Read (FourCCRIFF @ LittleEndianUInt32Bytes sz @ ft @ rest) =
           Return (Inr \<lparr>fileType_r = ft, size_r = sz, bytesRead = 4, r_io = rest\<rparr>)"
proof -
  define bs where "bs = FourCCRIFF @ LittleEndianUInt32Bytes sz @ ft @ rest"
  have l: "12 \<le> length bs"
    using assms(1) by (simp add: bs_def FourCCRIFF_def LittleEndianUInt32Bytes_def)
  have t: "take 4 bs = FourCCRIFF" "take 4 (drop 4 bs) = LittleEndianUInt32Bytes sz"
    "take 4 (drop 8 bs) = ft" "drop 12 bs = rest"
    using assms(1) by (simp_all add: bs_def FourCCRIFF_def LittleEndianUInt32Bytes_def)
  from reader_New_bytes_full[OF l] have
    "reader_New bytes_Reader_Read bs =
       Return (Inr \<lparr>fileType_r = ft, size_r = sz, bytesRead = 4, r_io = rest\<rparr>)"
    using assms(2) unfolding t by (auto simp: LE32_roundtrip not_less[symmetric])
  then show ?thesis
    by (simp add: bs_def)
qed

text \<open>
  Read back through \<open>bytes.Reader\<close>, the sequence comes back when it is empty or its last
  chunk has data.
\<close>

lemma roundtrip_bytes_Reader:
  assumes "length ft = 4" and "\<forall>c \<in> set cs. length (Identifier c) = 4"
    and "4 + int (sum_list (map wire_length cs)) \<le> MaxUint32"
    and "cs = [] \<or> Data (last cs) \<noteq> []"
  shows "\<exists>bytes r0 r'.
           write_file Buffer [] ft cs = Return (Inr bytes)
           \<and> reader_New bytes_Reader_Read bytes = Return (Inr r0) \<and> fileType_r r0 = ft
           \<and> ReadToEnd bytes_Reader_Read r0 = Some (Return (r', cs, None))"
proof -
  let ?n = "4 + int (sum_list (map wire_length cs))"
  let ?sz = "word_of_int ?n :: 32 word"
  let ?body = "concat (map chunk_bytes cs)"
  let ?r0 = "\<lparr>fileType_r = ft, size_r = ?sz, bytesRead = 4, r_io = ?body\<rparr>"
  have u: "uint ?sz = ?n"
    using assms(3) by (intro uint32_fileSize) simp_all
  have "uint (4 :: 32 word) \<le> uint ?sz"
    unfolding u by simp
  then have sz4: "4 \<le> ?sz"
    by (simp only: word_le_def)
  have w: "write_file Buffer [] ft cs =
             Return (Inr (FourCCRIFF @ LittleEndianUInt32Bytes ?sz @ ft @ ?body))"
    by (rule write_file_Buffer[OF assms(1,2,3)])
  have n: "reader_New bytes_Reader_Read (FourCCRIFF @ LittleEndianUInt32Bytes ?sz @ ft @ ?body)
             = Return (Inr ?r0)"
    by (rule reader_New_bytes_Reader[OF assms(1) sz4])
  have dl: "\<forall>c \<in> set cs. length (Identifier c) = 4 \<and> length (Data c) < 2 ^ 32"
  proof
    fix c assume c: "c \<in> set cs"
    have "int (wire_length c) \<le> int (sum_list (map wire_length cs))"
      using wire_length_le_sum[OF c] by simp
    then have "int (wire_length c) \<le> MaxUint32"
      using assms(3) by simp
    then have "length (Data c) < 2 ^ 32"
      by (simp add: wire_length_def MaxUint32_def)
    then show "length (Identifier c) = 4 \<and> length (Data c) < 2 ^ 32"
      using assms(2) c by simp
  qed
  have pl: "uint ?sz \<le> PaddedLength (uint ?sz)"
    unfolding PaddedLength_uint by simp
  have "ReadToEnd_loop bytes_Reader_Read ?r0 [] =
           Some (Return (?r0\<lparr>r_io := [],
                           bytesRead := bytesRead ?r0 + int (sum_list (map wire_length cs))\<rparr>,
                         [] @ cs, None))"
    using dl pl u assms(4) by (intro ReadToEnd_loop_bytes_Reader) simp_all
  then have "ReadToEnd bytes_Reader_Read ?r0 =
           Some (Return (?r0\<lparr>r_io := [],
                           bytesRead := bytesRead ?r0 + int (sum_list (map wire_length cs))\<rparr>,
                         cs, None))"
    by (simp add: ReadToEnd_def)
  then show ?thesis
    using w n by (intro exI conjI) simp_all
qed

lemma empty_chunk_written:
  "write_file Buffer [] FileTypeWavefile [\<lparr>Identifier = FourCCData, Data = []\<rparr>] =
     Return (Inr (FourCCRIFF @ [12, 0, 0, 0] @ FileTypeWavefile @ FourCCData @ [0, 0, 0, 0]))"
proof -
  have "write_file Buffer [] FileTypeWavefile [\<lparr>Identifier = FourCCData, Data = []\<rparr>] =
           Return (Inr (FourCCRIFF
                        @ LittleEndianUInt32Bytes
                            (word_of_int (4 + int (sum_list (map wire_length
                               [\<lparr>Identifier = FourCCData, Data = []\<rparr>]))))
                        @ FileTypeWavefile
                        @ concat (map chunk_bytes [\<lparr>Identifier = FourCCData, Data = []\<rparr>])))"
    by (rule write_file_Buffer)
       (simp_all add: FileTypeWavefile_def FourCCData_def wire_length_def MaxUint32_def)
  then show ?thesis
    by (simp add: wire_length_def chunk_bytes_def Pad_Nil LittleEndianUInt32Bytes_def)
qed

lemma empty_chunk_New:
  "reader_New bytes_Reader_Read
     (FourCCRIFF @ [12, 0, 0, 0] @ FileTypeWavefile @ FourCCData @ [0, 0, 0, 0]) =
     Return (Inr \<lparr>fileType_r = FileTypeWavefile, size_r = 12, bytesRead = 4,
                  r_io = FourCCData @ [0, 0, 0, 0]\<rparr>)"
  by (simp add: eval_defs)

lemma empty_chunk_ReadChunk:
  "ReadChunk bytes_Reader_Read
     \<lparr>fileType_r = FileTypeWavefile, size_r = 12, bytesRead = 4,
      r_io = FourCCData @ [0, 0, 0, 0]\<rparr> zero_Chunk =
   Return (\<lparr>fileType_r = FileTypeWavefile, size_r = 12, bytesRead = 12, r_io = []\<rparr>,
           \<lparr>Identifier = FourCCData, Data = []\<rparr>, 8, Some EOF)"
  by (simp add: eval_defs)

subsection \<open>C3\<close>

text \<open>
  C3 says that every sequence of chunks written with the writer comes back from
  \<open>ReadToEnd\<close> as it was written. A chunk without data ends with its header; when it is
  the last chunk of the file and the file is read through \<open>bytes.Reader\<close>, the payload
  read of no bytes meets the end of the stream, \<open>ReadChunk\<close> returns \<open>io.EOF\<close> with the
  chunk already read, and \<open>ReadToEnd\<close> drops it: one chunk \<open>"data"\<close> without data is
  written, no chunk is read back.
\<close>

theorem roundtrip_drops_trailing_empty_chunk:
  "write_file Buffer [] FileTypeWavefile [\<lparr>Identifier = FourCCData, Data = []\<rparr>] =
     Return (Inr (FourCCRIFF @ [12, 0, 0, 0] @ FileTypeWavefile @ FourCCData @ [0, 0, 0, 0]))
   \<and> reader_New bytes_Reader_Read
        (FourCCRIFF @ [12, 0, 0, 0] @ FileTypeWavefile @ FourCCData @ [0, 0, 0, 0]) =
      Return (Inr \<lparr>fileType_r = FileTypeWavefile, size_r = 12, bytesRead = 4,
                   r_io = FourCCData @ [0, 0, 0, 0]\<rparr>)
   \<and> ReadChunk bytes_Reader_Read
        \<lparr>fileType_r = FileTypeWavefile, size_r = 12, bytesRead = 4,
         r_io = FourCCData @ [0, 0, 0, 0]\<rparr> zero_Chunk =
      Return (\<lparr>fileType_r = FileTypeWavefile, size_r = 12, bytesRead = 12, r_io = []\<rparr>,
              \<lparr>Identifier = FourCCData, Data = []\<rparr>, 8, Some EOF)
   \<and> ReadToEnd bytes_Reader_Read
        \<lparr>fileType_r = FileTypeWavefile, size_r = 12, bytesRead = 4,
         r_io = FourCCData @ [0, 0, 0, 0]\<rparr> =
      Some (Return (\<lparr>fileType_r = FileTypeWavefile, size_r = 12, bytesRead = 12, r_io = []\<rparr>,
                    [], None))
   \<and> [] \<noteq> [\<lparr>Identifier = FourCCData, Data = []\<rparr>]"
proof -
  have "ReadToEnd bytes_Reader_Read
        \<lparr>fileType_r = FileTypeWavefile, size_r = 12, bytesRead = 4,
         r_io = FourCCData @ [0, 0, 0, 0]\<rparr> =
      Some (Return (\<lparr>fileType_r = FileTypeWavefile, size_r = 12, bytesRead = 12, r_io = []\<rparr>,
                    [], None))"
    unfolding ReadToEnd_def
    by (rule ReadToEnd_loop_EOF[OF empty_chunk_ReadChunk]) simp
  then show ?thesis
    using empty_chunk_written empty_chunk_New empty_chunk_ReadChunk by simp
qed

end
